theory Spec2Isabelle
  imports Main "HOL-Library.Sublist"
begin

section \<open>Python strings\<close>

text \<open>
  A Python \<open>str\<close> is a sequence of Unicode code points: \<open>ord\<close>, \<open>enumerate\<close> and
  \<open>len\<close> count code points, and the source holds Korean literals. A string is
  therefore modelled as the list of its code points; \<open>lit\<close> turns an ASCII literal of
  the source into that list.
\<close>

type_synonym ustr = "nat list"

definition lit :: "string \<Rightarrow> ustr" where
  "lit s = map of_char s"

text \<open>
  \<open>str.isspace\<close> for one character, which is also the class \<open>\s\<close> of a \<open>str\<close> pattern
  in \<open>re\<close>: U+0009..U+000D, U+001C..U+0020, U+0085, U+00A0, U+1680, U+2000..U+200A,
  U+2028, U+2029, U+202F, U+205F, U+3000.
\<close>

definition isspace :: "nat \<Rightarrow> bool" where
  "isspace c \<longleftrightarrow>
     (9 \<le> c \<and> c \<le> 13) \<or> (28 \<le> c \<and> c \<le> 32) \<or> c = 133 \<or> c = 160 \<or> c = 5760 \<or>
     (8192 \<le> c \<and> c \<le> 8202) \<or> c = 8232 \<or> c = 8233 \<or> c = 8239 \<or> c = 8287 \<or> c = 12288"

text \<open>\<open>s.strip()\<close>: white space is removed at both ends.\<close>

definition lstrip :: "ustr \<Rightarrow> ustr" where
  "lstrip s = dropWhile isspace s"

definition rstrip :: "ustr \<Rightarrow> ustr" where
  "rstrip s = rev (dropWhile isspace (rev s))"

definition strip :: "ustr \<Rightarrow> ustr" where
  "strip s = rstrip (lstrip s)"

text \<open>
  \<open>s.lower()\<close>. The source only compares the result with the ASCII literals
  \<open>"null"\<close>, \<open>"none"\<close> and \<open>""\<close>. No code point outside \<open>A\<close>..\<open>Z\<close> has one of the letters
  of these literals in its lower-case mapping, and no code point lower-cases to the
  empty string, so the mapping is written out for \<open>A\<close>..\<open>Z\<close> and is the identity
  elsewhere; the comparison has the same outcome as in Python.
\<close>

definition lower_char :: "nat \<Rightarrow> nat" where
  "lower_char c = (if 65 \<le> c \<and> c \<le> 90 then c + 32 else c)"

definition lower :: "ustr \<Rightarrow> ustr" where
  "lower s = map lower_char s"

text \<open>
  \<open>s.replace(old, new)\<close>: the occurrences of \<open>old\<close> are replaced from left to right
  without overlap; an empty \<open>old\<close> matches before every character and at the end.
\<close>

function replace :: "ustr \<Rightarrow> ustr \<Rightarrow> ustr \<Rightarrow> ustr" where
  "replace old new [] = (if old = [] then new else [])"
| "replace old new (c # cs) =
     (if old = [] then new @ c # replace old new cs
      else if prefix old (c # cs) then new @ replace old new (drop (length old) (c # cs))
      else c # replace old new cs)"
  by pat_completeness auto
termination
  by (relation "measure (\<lambda>(old, new, s). length s)") auto

text \<open>\<open>s.startswith(p)\<close>.\<close>

definition startswith :: "ustr \<Rightarrow> ustr \<Rightarrow> bool" where
  "startswith s p = prefix p s"

text \<open>\<open>sep.join(xs)\<close>.\<close>

fun join :: "ustr \<Rightarrow> ustr list \<Rightarrow> ustr" where
  "join sep [] = []"
| "join sep [x] = x"
| "join sep (x # y # ys) = x @ sep @ join sep (y # ys)"

text \<open>\<open>str(n)\<close> for a non-negative integer: its decimal digits.\<close>

function str_nat :: "nat \<Rightarrow> ustr" where
  "str_nat n = (if n < 10 then [48 + n] else str_nat (n div 10) @ [48 + n mod 10])"
  by pat_completeness auto
termination
  by (relation "measure id") auto

declare str_nat.simps [simp del]

text \<open>
  The reader's view of a document: \<open>s.split("\n")\<close>, the lines between the line feeds.
\<close>

fun split_lines :: "ustr \<Rightarrow> ustr list" where
  "split_lines [] = [[]]"
| "split_lines (c # cs) =
     (if c = 10 then [] # split_lines cs
      else (case split_lines cs of [] \<Rightarrow> [[c]] | l # ls \<Rightarrow> (c # l) # ls))"

section \<open>Exceptions and dynamic values\<close>

datatype pyerr = ValueError | TypeError | AttributeError | RuntimeError ustr | UpstreamError

text \<open>
  A value read from a JSON object: \<open>None\<close> (also what \<open>dict.get\<close> returns for an absent
  key), a string, or a value of any other type, of which only its truth value matters.
\<close>

datatype pyval = PNone | PStr ustr | POther bool

fun truthy :: "pyval \<Rightarrow> bool" where
  "truthy PNone = False"
| "truthy (PStr s) = (s \<noteq> [])"
| "truthy (POther b) = b"

section \<open>datetime\<close>

record datetime =
  year :: nat
  month :: nat
  day :: nat
  hour :: nat
  minute :: nat
  second :: nat

definition is_leap :: "nat \<Rightarrow> bool" where
  "is_leap y \<longleftrightarrow> y mod 4 = 0 \<and> (y mod 100 \<noteq> 0 \<or> y mod 400 = 0)"

definition days_in_month :: "nat \<Rightarrow> nat \<Rightarrow> nat" where
  "days_in_month y m =
     (if m = 2 then (if is_leap y then 29 else 28)
      else if m = 4 \<or> m = 6 \<or> m = 9 \<or> m = 11 then 30 else 31)"

subsection \<open>Decimal digits\<close>

text \<open>
  The class \<open>\d\<close> of a \<open>str\<close> pattern is every Unicode decimal digit (category Nd), and
  \<open>int\<close> reads each of them by its digit value. The digits come in runs of ten
  consecutive code points with the values 0 to 9; \<open>decimal_zeros\<close> lists the first code
  point of each run (Unicode 14.0.0).
\<close>

definition decimal_zeros :: "nat list" where
  "decimal_zeros =
     [48, 1632, 1776, 1984, 2406, 2534, 2662, 2790, 2918, 3046, 3174, 3302, 3430, 3558,
      3664, 3792, 3872, 4160, 4240, 6112, 6160, 6470, 6608, 6784, 6800, 6992, 7088, 7232,
      7248, 42528, 43216, 43264, 43472, 43504, 43600, 44016, 65296, 66720, 68912, 69734,
      69872, 69942, 70096, 70384, 70736, 70864, 71248, 71360, 71472, 71904, 72016, 72784,
      73040, 73120, 92768, 92864, 93008, 120782, 120792, 120802, 120812, 120822, 123200,
      123632, 125264, 130032]"

definition decimal_value :: "nat \<Rightarrow> nat option" where
  "decimal_value c =
     (case find (\<lambda>z. z \<le> c \<and> c < z + 10) decimal_zeros of
        None \<Rightarrow> None
      | Some z \<Rightarrow> Some (c - z))"

subsection \<open>strptime with the format \<open>%Y-%m-%d %H:%M\<close>\<close>

text \<open>
  \<open>datetime.strptime\<close> compiles the format into the regular expression

  \<^verbatim>\<open>(?P<Y>\d\d\d\d)-(?P<m>1[0-2]|0[1-9]|[1-9])-(?P<d>3[0-1]|[1-2]\d|0[1-9]|[1-9]| [1-9])\<close>
  \<^verbatim>\<open>\s+(?P<H>2[0-3]|[0-1]\d|\d):(?P<M>[0-5]\d|\d)\<close>

  and matches it at the start of the string with a backtracking matcher. A matcher is
  modelled as the list of its successes in the order in which backtracking tries them:
  each success is the value read and the rest of the string. The first success of the
  whole expression is the match; \<open>int\<close> of a group is computed with the digits.
\<close>

type_synonym 'a matcher = "ustr \<Rightarrow> ('a \<times> ustr) list"

text \<open>The class \<open>[a-b]\<close> of ASCII digits.\<close>

definition rng :: "nat \<Rightarrow> nat \<Rightarrow> nat matcher" where
  "rng a b s =
     (case s of [] \<Rightarrow> [] | c # r \<Rightarrow> if 48 + a \<le> c \<and> c \<le> 48 + b then [(c - 48, r)] else [])"

text \<open>The class \<open>\d\<close>.\<close>

definition dig :: "nat matcher" where
  "dig s =
     (case s of [] \<Rightarrow> []
      | c # r \<Rightarrow> (case decimal_value c of None \<Rightarrow> [] | Some v \<Rightarrow> [(v, r)]))"

text \<open>A literal character.\<close>

definition chr :: "nat \<Rightarrow> unit matcher" where
  "chr k s = (case s of [] \<Rightarrow> [] | c # r \<Rightarrow> if c = k then [((), r)] else [])"

text \<open>Two digit matchers in sequence, read as a two-digit number.\<close>

definition two :: "nat matcher \<Rightarrow> nat matcher \<Rightarrow> nat matcher" where
  "two p q s = [(10 * a + b, r'). (a, r) \<leftarrow> p s, (b, r') \<leftarrow> q r]"

text \<open>\<open>\s+\<close> is greedy: the longest run first, then one character less at a time.\<close>

definition spaces :: "unit matcher" where
  "spaces s = map (\<lambda>n. ((), drop n s)) (rev [1 ..< Suc (length (takeWhile isspace s))])"

definition dir_Y :: "nat matcher" where
  "dir_Y s =
     [(1000 * a + 100 * b + 10 * c + d, r4).
        (a, r1) \<leftarrow> dig s, (b, r2) \<leftarrow> dig r1, (c, r3) \<leftarrow> dig r2, (d, r4) \<leftarrow> dig r3]"

definition dir_m :: "nat matcher" where
  "dir_m s = two (rng 1 1) (rng 0 2) s @ two (rng 0 0) (rng 1 9) s @ rng 1 9 s"

definition dir_d :: "nat matcher" where
  "dir_d s =
     two (rng 3 3) (rng 0 1) s @ two (rng 1 2) dig s @ two (rng 0 0) (rng 1 9) s @
     rng 1 9 s @ [(v, r'). (u, r) \<leftarrow> chr 32 s, (v, r') \<leftarrow> rng 1 9 r]"

definition dir_H :: "nat matcher" where
  "dir_H s = two (rng 2 2) (rng 0 3) s @ two (rng 0 1) dig s @ dig s"

definition dir_M :: "nat matcher" where
  "dir_M s = two (rng 0 5) dig s @ dig s"

definition format_regex :: "(nat \<times> nat \<times> nat \<times> nat \<times> nat) matcher" where
  "format_regex s =
     [((Y, m, d, H, M), r9).
        (Y, r1) \<leftarrow> dir_Y s, (u1, r2) \<leftarrow> chr 45 r1,
        (m, r3) \<leftarrow> dir_m r2, (u2, r4) \<leftarrow> chr 45 r3,
        (d, r5) \<leftarrow> dir_d r4, (u3, r6) \<leftarrow> spaces r5,
        (H, r7) \<leftarrow> dir_H r6, (u4, r8) \<leftarrow> chr 58 r7,
        (M, r9) \<leftarrow> dir_M r8]"

text \<open>
  \<open>datetime.strptime(s, "%Y-%m-%d %H:%M")\<close>: \<open>ValueError\<close> when the expression does not
  match, when it matches but does not use the whole string (``unconverted data
  remains''), and when the date does not exist (year 0, or a day beyond the month's
  length); the seconds of the result are 0.
\<close>

definition strptime :: "ustr \<Rightarrow> pyerr + datetime" where
  "strptime s =
     (case format_regex s of
        [] \<Rightarrow> Inl ValueError
      | ((Y, m, d, H, M), r) # _ \<Rightarrow>
          if r \<noteq> [] then Inl ValueError
          else if Y < 1 \<or> days_in_month Y m < d then Inl ValueError
          else Inr \<lparr>year = Y, month = m, day = d, hour = H, minute = M, second = 0\<rparr>)"

text \<open>The same call on a dynamic value: a first argument that is not a \<open>str\<close> is a \<open>TypeError\<close>.\<close>

fun py_strptime :: "pyval \<Rightarrow> pyerr + datetime" where
  "py_strptime (PStr s) = strptime s"
| "py_strptime _ = Inl TypeError"

subsection \<open>strftime\<close>

definition zpad :: "nat \<Rightarrow> nat \<Rightarrow> ustr" where
  "zpad w n = replicate (w - length (str_nat n)) 48 @ str_nat n"

text \<open>
  \<open>dt.strftime("%Y%m%dT%H%M%S")\<close>. The year is written with four digits, as the
  library documents \<open>%Y\<close>. The pad only shows for years before 1000, where some C
  libraries leave it out; no statement below depends on the digits of such a year.
\<close>

definition strftime :: "datetime \<Rightarrow> ustr" where
  "strftime dt =
     zpad 4 (year dt) @ zpad 2 (month dt) @ zpad 2 (day dt) @ [84] @
     zpad 2 (hour dt) @ zpad 2 (minute dt) @ zpad 2 (second dt)"

section \<open>The environment of a run\<close>

text \<open>
  What the program reads from outside its arguments: the clock
  (\<open>datetime.now(timezone.utc)\<close>) and the configured secret
  (\<open>st.secrets.get("OPENAI_API_KEY")\<close>, \<open>None\<close> when it is not configured).
\<close>

record env =
  now :: datetime
  secret_OPENAI_API_KEY :: "ustr option"

section \<open>to_ics\<close>

text \<open>A task is the JSON object of the schema; a field holds \<open>PNone\<close> when the key is absent.\<close>

record TaskItem =
  task :: pyval
  due_local :: pyval
  priority :: pyval
  source_quote :: pyval

text \<open>
  The first half of the loop body: from \<open>due = t.get("due_local")\<close> to the
  \<open>try\<close>/\<open>except ValueError\<close> around \<open>strptime\<close>. \<open>Inr None\<close> is \<open>continue\<close>; only
  \<open>ValueError\<close> is caught.
\<close>

definition parse_due :: "TaskItem \<Rightarrow> pyerr + datetime option" where
  "parse_due t =
     (let due = due_local t in
      if due = PNone then Inr None
      else
        (case (case due of
                 PStr s \<Rightarrow>
                   (let s1 = strip s in
                    if lower s1 \<in> set [lit ''null'', lit ''none'', lit '''']
                    then None
                    else Some (PStr (replace (lit ''T'') (lit '' '') s1)))
               | _ \<Rightarrow> Some due) of
           None \<Rightarrow> Inr None
         | Some due' \<Rightarrow>
             (case py_strptime due' of
                Inl ValueError \<Rightarrow> Inr None
              | Inl e \<Rightarrow> Inl e
              | Inr dt \<Rightarrow> Inr (Some dt))))"

text \<open>\<open>(t.get("task") or "..").replace("\n", " ").strip()\<close>; the placeholder is U+D560 U+0020 U+C77C.\<close>

definition placeholder :: ustr where
  "placeholder = [54624, 32, 51068]"

definition summary_of :: "TaskItem \<Rightarrow> pyerr + ustr" where
  "summary_of t =
     (case (if truthy (task t) then task t else PStr placeholder) of
        PStr s \<Rightarrow> Inr (strip (replace [10] (lit '' '') s))
      | _ \<Rightarrow> Inl AttributeError)"

text \<open>The loop body: the lines that one task adds (none when the task is skipped).\<close>

definition vevent :: "ustr \<Rightarrow> ustr \<Rightarrow> nat \<Rightarrow> TaskItem \<Rightarrow> pyerr + ustr list" where
  "vevent now_utc tzid i t =
     (case parse_due t of
        Inl e \<Rightarrow> Inl e
      | Inr None \<Rightarrow> Inr []
      | Inr (Some dt) \<Rightarrow>
          (let dtstart = strftime dt;
               dtend = strftime dt;
               uid = lit ''notice2do-'' @ str_nat i @ lit ''-'' @ dtstart @ lit ''@local''
           in case summary_of t of
                Inl e \<Rightarrow> Inl e
              | Inr summary \<Rightarrow>
                  Inr [lit ''BEGIN:VEVENT'',
                       lit ''UID:'' @ uid,
                       lit ''DTSTAMP:'' @ now_utc,
                       lit ''DTSTART;TZID='' @ tzid @ lit '':'' @ dtstart,
                       lit ''DTEND;TZID='' @ tzid @ lit '':'' @ dtend,
                       lit ''SUMMARY:'' @ summary,
                       lit ''END:VEVENT'']))"

text \<open>\<open>for i, t in enumerate(tasks)\<close>, from index \<open>i\<close> on, with the lines gathered so far.\<close>

fun to_ics_loop :: "ustr \<Rightarrow> ustr \<Rightarrow> nat \<Rightarrow> TaskItem list \<Rightarrow> ustr list \<Rightarrow> pyerr + ustr list" where
  "to_ics_loop now_utc tzid i [] lines = Inr lines"
| "to_ics_loop now_utc tzid i (t # ts) lines =
     (case vevent now_utc tzid i t of
        Inl e \<Rightarrow> Inl e
      | Inr ev \<Rightarrow> to_ics_loop now_utc tzid (Suc i) ts (lines @ ev))"

definition to_ics :: "env \<Rightarrow> TaskItem list \<Rightarrow> ustr \<Rightarrow> pyerr + ustr" where
  "to_ics e tasks tzid =
     (let lines = [lit ''BEGIN:VCALENDAR'', lit ''VERSION:2.0'',
                   lit ''PRODID:-//Notice2Do//KR//EN'', lit ''CALSCALE:GREGORIAN''];
          now_utc = strftime (now e) @ lit ''Z''
      in case to_ics_loop now_utc tzid 0 tasks lines of
           Inl err \<Rightarrow> Inl err
         | Inr lines' \<Rightarrow> Inr (join [10] (lines' @ [lit ''END:VCALENDAR''])))"

definition to_ics_default :: "env \<Rightarrow> TaskItem list \<Rightarrow> pyerr + ustr" where
  "to_ics_default e tasks = to_ics e tasks (lit ''Asia/Seoul'')"

section \<open>call_ai: the credential checks\<close>

text \<open>
  The exceptions of the three checks are \<open>RuntimeError\<close>s that differ in their message
  (the specification's \<open>ConfigError\<close>). The messages are the source's literals, as code
  points.
\<close>

definition msg_missing :: ustr where
  "msg_missing =
     lit ''OPENAI_API_KEY'' @ [44032, 32, 50630, 49845, 45768, 45796] @
     lit ''. .streamlit/secrets.toml'' @ [50640, 32, 45347, 50612, 51452, 49464, 50836] @
     lit ''.''"

definition msg_malformed :: ustr where
  "msg_malformed =
     lit ''OPENAI_API_KEY '' @ [54805, 49885, 51060, 32, 51060, 49345, 54633, 45768, 45796] @
     lit ''. sk-'' @
     [47196, 32, 49884, 51089, 54616, 45716, 32, 49892, 51228, 32, 53412, 47484, 32,
      45347, 50612, 51452, 49464, 50836] @ lit ''.''"

text \<open>\<open>repr\<close> of a list of pairs of integers, as the f-string prints \<open>bad[:10]\<close>.\<close>

definition repr_pair :: "nat \<times> nat \<Rightarrow> ustr" where
  "repr_pair p = lit ''('' @ str_nat (fst p) @ lit '', '' @ str_nat (snd p) @ lit '')''"

definition repr_pairs :: "(nat \<times> nat) list \<Rightarrow> ustr" where
  "repr_pairs ps = lit ''['' @ join (lit '', '') (map repr_pair ps) @ lit '']''"

definition msg_nonascii :: "(nat \<times> nat) list \<Rightarrow> ustr" where
  "msg_nonascii shown =
     lit ''OPENAI_API_KEY'' @ [50640, 32, 48708] @ lit ''ASCII '' @
     [47928, 51088, 44032, 32, 49438, 50668, 32, 51080, 49845, 45768, 45796] @ lit ''. '' @
     [50948, 52824, 47, 53076, 46300] @ lit '': '' @ repr_pairs shown @
     lit '' ('' @ [50696] @ lit '': 65279'' @ [45716] @ lit '' BOM, 8203'' @
     [51008, 32, 51228, 47196, 54253, 32, 44277, 48177] @ lit '')''"

text \<open>
  The request of \<open>client.responses.create\<close>: the key given to the client, the model name
  and the user message; the system instruction and the schema are constants of the
  source and are left out.
\<close>

record request =
  api_key_of :: ustr
  model_of :: ustr
  user_content :: ustr

text \<open>\<open>bad = [(i, ord(ch)) for i, ch in enumerate(api_key) if ord(ch) > 127]\<close>.\<close>

definition bad_chars :: "ustr \<Rightarrow> (nat \<times> nat) list" where
  "bad_chars api_key = filter (\<lambda>p. snd p > 127) (enumerate 0 api_key)"

text \<open>
  \<open>call_ai\<close> with the generation backend and \<open>json.loads\<close> as parameters: \<open>backend\<close> is the
  one outbound call (its answer text, or the exception it raises). The second component
  of the result is the list of requests that went out.
\<close>

definition call_ai ::
  "(request \<Rightarrow> pyerr + ustr) \<Rightarrow> (ustr \<Rightarrow> pyerr + 'd) \<Rightarrow> env \<Rightarrow> ustr \<Rightarrow> (pyerr + 'd) \<times> request list"
where
  "call_ai backend loads e raw_text =
     (let api_key = strip (case secret_OPENAI_API_KEY e of None \<Rightarrow> [] | Some k \<Rightarrow> k) in
      if api_key = [] then (Inl (RuntimeError msg_missing), [])
      else
        (let bad = bad_chars api_key in
         if bad \<noteq> [] then (Inl (RuntimeError (msg_nonascii (take 10 bad))), [])
         else if \<not> startswith api_key (lit ''sk-'') then (Inl (RuntimeError msg_malformed), [])
         else
           (let req = \<lparr>api_key_of = api_key, model_of = lit ''gpt-4o-mini'',
                       user_content = [91, 50896, 47928, 93, 10] @ raw_text @ [10]\<rparr>
            in case backend req of
                 Inl err \<Rightarrow> (Inl err, [req])
               | Inr output_text \<Rightarrow> (loads output_text, [req]))))"

section \<open>Notions of the specification\<close>

text \<open>
  A task is well typed when \<open>task\<close> and \<open>due_local\<close> are each a string or \<open>None\<close>, as the
  schema of the generation call declares them.
\<close>

definition typed_task :: "TaskItem \<Rightarrow> bool" where
  "typed_task t \<longleftrightarrow>
     (case due_local t of POther _ \<Rightarrow> False | _ \<Rightarrow> True) \<and>
     (case task t of POther _ \<Rightarrow> False | _ \<Rightarrow> True)"

text \<open>The task's \<open>due_local\<close> is parsed: the loop body reaches the lines that emit an event.\<close>

definition is_parsed :: "TaskItem \<Rightarrow> bool" where
  "is_parsed t = (case parse_due t of Inr (Some _) \<Rightarrow> True | _ \<Rightarrow> False)"

text \<open>The lines that the loop adds for the tasks \<open>ts\<close>, the first of which has index \<open>i\<close>.\<close>

definition events_of :: "ustr \<Rightarrow> ustr \<Rightarrow> nat \<Rightarrow> TaskItem list \<Rightarrow> ustr list" where
  "events_of now_utc tzid i ts =
     concat (map (\<lambda>(k, t). case vevent now_utc tzid k t of Inl _ \<Rightarrow> [] | Inr ev \<Rightarrow> ev)
                 (enumerate i ts))"

text \<open>The number of event blocks of a document, and its \<open>UID\<close> lines.\<close>

definition count_events :: "ustr \<Rightarrow> nat" where
  "count_events doc = length (filter (\<lambda>l. l = lit ''BEGIN:VEVENT'') (split_lines doc))"

definition uid_lines :: "ustr \<Rightarrow> ustr list" where
  "uid_lines doc = filter (prefix (lit ''UID:'')) (split_lines doc)"

text \<open>The number that a run of decimal digits denotes.\<close>

definition is_digit :: "nat \<Rightarrow> bool" where
  "is_digit c \<longleftrightarrow> decimal_value c \<noteq> None"

definition digit_of :: "nat \<Rightarrow> nat" where
  "digit_of c = (case decimal_value c of None \<Rightarrow> 0 | Some v \<Rightarrow> v)"

definition digits_value :: "ustr \<Rightarrow> nat" where
  "digits_value ds = foldl (\<lambda>a c. 10 * a + digit_of c) 0 ds"

text \<open>A number written with at least one and at most \<open>w\<close> digits.\<close>

definition digits_field :: "nat \<Rightarrow> ustr \<Rightarrow> bool" where
  "digits_field w ds \<longleftrightarrow> ds \<noteq> [] \<and> length ds \<le> w \<and> list_all is_digit ds"

text \<open>
  The pattern as the specification words it: \<open>YYYY-MM-DD HH:MM\<close> with exactly four, two,
  two, two and two ASCII digits, one space, and every value in its range.
\<close>

definition ascii_digit :: "nat \<Rightarrow> bool" where
  "ascii_digit c \<longleftrightarrow> 48 \<le> c \<and> c \<le> 57"

definition exact_pattern :: "ustr \<Rightarrow> bool" where
  "exact_pattern s \<longleftrightarrow>
     (\<exists>Y m d H M.
        s = Y @ lit ''-'' @ m @ lit ''-'' @ d @ lit '' '' @ H @ lit '':'' @ M \<and>
        length Y = 4 \<and> length m = 2 \<and> length d = 2 \<and> length H = 2 \<and> length M = 2 \<and>
        list_all ascii_digit (Y @ m @ d @ H @ M) \<and>
        1 \<le> digits_value Y \<and> 1 \<le> digits_value m \<and> digits_value m \<le> 12 \<and>
        1 \<le> digits_value d \<and> digits_value d \<le> days_in_month (digits_value Y) (digits_value m) \<and>
        digits_value H \<le> 23 \<and> digits_value M \<le> 59)"

text \<open>
  The strings that the parse step accepts at most: the same fields, where the month,
  day, hour and minute may have one digit or two, the day may be a space and one digit,
  any non-empty run of white space separates date and time, and a digit is any decimal
  digit.
\<close>

definition accepted_shape :: "ustr \<Rightarrow> bool" where
  "accepted_shape s \<longleftrightarrow>
     (\<exists>Y m p d w H M.
        s = Y @ lit ''-'' @ m @ lit ''-'' @ p @ d @ w @ H @ lit '':'' @ M \<and>
        length Y = 4 \<and> list_all is_digit Y \<and> 1 \<le> digits_value Y \<and>
        digits_field 2 m \<and> 1 \<le> digits_value m \<and> digits_value m \<le> 12 \<and>
        ((p = [] \<and> digits_field 2 d) \<or> (p = lit '' '' \<and> digits_field 1 d)) \<and>
        1 \<le> digits_value d \<and> digits_value d \<le> days_in_month (digits_value Y) (digits_value m) \<and>
        w \<noteq> [] \<and> list_all isspace w \<and>
        digits_field 2 H \<and> digits_value H \<le> 23 \<and>
        digits_field 2 M \<and> digits_value M \<le> 59)"

text \<open>
  The \<open>UID\<close> line of the event of the task with index \<open>k\<close>: the index and the formatted
  start time.
\<close>

definition uid_line :: "nat \<Rightarrow> TaskItem \<Rightarrow> ustr" where
  "uid_line k t =
     lit ''UID:notice2do-'' @ str_nat k @ lit ''-'' @
     (case parse_due t of Inr (Some dt) \<Rightarrow> strftime dt | _ \<Rightarrow> []) @ lit ''@local''"

section \<open>Example inputs\<close>

definition example_env :: env where
  "example_env =
     \<lparr>now = \<lparr>year = 2025, month = 3, day = 1, hour = 12, minute = 30, second = 45\<rparr>,
      secret_OPENAI_API_KEY = None\<rparr>"

definition example_task :: "ustr \<Rightarrow> pyval \<Rightarrow> TaskItem" where
  "example_task description due =
     \<lparr>task = PStr description, due_local = due, priority = PStr (lit ''high''),
      source_quote = PStr []\<rparr>"

definition example_backend :: "request \<Rightarrow> pyerr + ustr" where
  "example_backend req = Inr (lit ''{}'')"

definition example_loads :: "ustr \<Rightarrow> pyerr + unit" where
  "example_loads payload = Inr ()"

section \<open>Facts about the string operations\<close>

lemmas string_eval =
  lit_def strip_def lstrip_def rstrip_def isspace_def lower_def lower_char_def startswith_def

lemmas strptime_eval =
  strptime_def format_regex_def dir_Y_def dir_m_def dir_d_def dir_H_def dir_M_def two_def
  rng_def dig_def chr_def spaces_def decimal_value_def decimal_zeros_def
  days_in_month_def is_leap_def

lemmas strftime_eval = strftime_def zpad_def str_nat.simps

lemma replace_single: "replace [a] [b] s = map (\<lambda>c. if c = a then b else c) s"
  by (induction s) auto

lemma set_strip: "set (strip s) \<subseteq> set s"
proof -
  have "set (strip s) \<subseteq> set (lstrip s)"
    unfolding strip_def rstrip_def using set_dropWhileD[of _ isspace "rev (lstrip s)"] by auto
  also have "\<dots> \<subseteq> set s"
    unfolding lstrip_def using set_dropWhileD[of _ isspace s] by auto
  finally show ?thesis .
qed

section \<open>The loop body, case by case\<close>

lemma strptime_error: "strptime s = Inl e \<Longrightarrow> e = ValueError"
  by (auto simp: strptime_def split: list.splits prod.splits if_splits)

lemma parse_due_PNone: "due_local t = PNone \<Longrightarrow> parse_due t = Inr None"
  by (simp add: parse_due_def)

lemma parse_due_PStr:
  "due_local t = PStr s \<Longrightarrow>
   parse_due t =
     (if lower (strip s) = lit ''null'' \<or> lower (strip s) = lit ''none'' \<or> strip s = []
      then Inr None
      else (case strptime (replace (lit ''T'') (lit '' '') (strip s)) of
              Inl e \<Rightarrow> Inr None
            | Inr dt \<Rightarrow> Inr (Some dt)))"
  by (auto simp: parse_due_def Let_def lower_def lit_def
           split: sum.splits pyerr.splits dest: strptime_error)

lemma parse_due_typed: "typed_task t \<Longrightarrow> \<exists>r. parse_due t = Inr r"
  by (cases "due_local t")
     (auto simp: typed_task_def parse_due_PNone parse_due_PStr split: sum.splits)

lemma summary_of_typed: "typed_task t \<Longrightarrow> \<exists>s. summary_of t = Inr s"
  by (cases "task t") (auto simp: typed_task_def summary_of_def)

lemma vevent_skip: "parse_due t = Inr None \<Longrightarrow> vevent now_utc tzid i t = Inr []"
  by (simp add: vevent_def)

lemma vevent_typed: "typed_task t \<Longrightarrow> \<exists>ev. vevent now_utc tzid i t = Inr ev"
  using parse_due_typed[of t] summary_of_typed[of t]
  by (auto simp: vevent_def Let_def split: option.splits)

section \<open>The loop\<close>

lemma events_of_Nil: "events_of now_utc tzid i [] = []"
  by (simp add: events_of_def)

lemma events_of_Cons:
  "events_of now_utc tzid i (t # ts) =
     (case vevent now_utc tzid i t of Inl _ \<Rightarrow> [] | Inr ev \<Rightarrow> ev) @
     events_of now_utc tzid (Suc i) ts"
  by (simp add: events_of_def)

lemma to_ics_loop_typed:
  "list_all typed_task ts \<Longrightarrow>
   to_ics_loop now_utc tzid i ts lines = Inr (lines @ events_of now_utc tzid i ts)"
proof (induction ts arbitrary: i lines)
  case Nil
  then show ?case by (simp add: events_of_Nil)
next
  case (Cons t ts)
  from Cons.prems obtain ev where ev: "vevent now_utc tzid i t = Inr ev"
    using vevent_typed[of t now_utc tzid i] by auto
  from Cons.prems have "list_all typed_task ts" by simp
  from Cons.IH[OF this] ev show ?case by (simp add: events_of_Cons)
qed

lemma to_ics_typed:
  "list_all typed_task tasks \<Longrightarrow>
   to_ics e tasks tzid =
     Inr (join [10]
           ([lit ''BEGIN:VCALENDAR'', lit ''VERSION:2.0'', lit ''PRODID:-//Notice2Do//KR//EN'',
             lit ''CALSCALE:GREGORIAN''] @
            events_of (strftime (now e) @ lit ''Z'') tzid 0 tasks @ [lit ''END:VCALENDAR'']))"
  by (simp add: to_ics_def Let_def to_ics_loop_typed)

section \<open>The calendar encoder never raises\<close>

text \<open>
  C4. For every sequence of tasks whose \<open>due_local\<close> (and \<open>task\<close>) is a string or
  \<open>None\<close>, \<open>to_ics\<close> returns a document: the only exception that arises in the loop is the
  \<open>ValueError\<close> of \<open>strptime\<close>, and the loop catches it and goes on.
\<close>

theorem to_ics_never_raises:
  "list_all typed_task tasks \<Longrightarrow> \<exists>doc. to_ics e tasks tzid = Inr doc"
  by (simp add: to_ics_typed)

theorem to_ics_never_raises_witness:
  "list_all typed_task
     [example_task (lit ''a'') (PStr (lit ''2025/03/10 09:00'')),
      example_task (lit ''b'') PNone] \<and>
   (\<exists>doc. to_ics example_env
            [example_task (lit ''a'') (PStr (lit ''2025/03/10 09:00'')),
             example_task (lit ''b'') PNone] (lit ''Asia/Seoul'') = Inr doc)"
  using to_ics_never_raises
    [of "[example_task (lit ''a'') (PStr (lit ''2025/03/10 09:00'')),
          example_task (lit ''b'') PNone]" example_env "lit ''Asia/Seoul''"]
  by (simp add: typed_task_def example_task_def)

section \<open>Determinism\<close>

text \<open>
  C9. The document depends on the environment of the run only through the clock: two
  runs on the same tasks and time zone whose clocks read the same instant return the
  same string, whatever else differs between the two environments.
\<close>

theorem to_ics_deterministic:
  "now e1 = now e2 \<Longrightarrow> to_ics e1 tasks tzid = to_ics e2 tasks tzid"
  by (simp add: to_ics_def)

theorem to_ics_deterministic_witness:
  "now example_env = now (example_env\<lparr>secret_OPENAI_API_KEY := Some (lit ''sk-x'')\<rparr>) \<and>
   to_ics example_env [example_task (lit ''a'') (PStr (lit ''2025-03-10T09:00''))]
     (lit ''Asia/Seoul'') =
   to_ics (example_env\<lparr>secret_OPENAI_API_KEY := Some (lit ''sk-x'')\<rparr>)
     [example_task (lit ''a'') (PStr (lit ''2025-03-10T09:00''))] (lit ''Asia/Seoul'')"
  using to_ics_deterministic
    [of example_env "example_env\<lparr>secret_OPENAI_API_KEY := Some (lit ''sk-x'')\<rparr>"
        "[example_task (lit ''a'') (PStr (lit ''2025-03-10T09:00''))]" "lit ''Asia/Seoul''"]
  by simp

section \<open>Tasks without a due date\<close>

text \<open>
  C6. A task whose \<open>due_local\<close> is \<open>None\<close> or absent, or a string that after trimming
  is empty or equals \<open>null\<close> or \<open>none\<close> without regard to case, adds no line to the
  document: the loop goes on to the next index with the lines it had.
\<close>

theorem skip_null_due:
  "due_local t = PNone \<or>
   (\<exists>s. due_local t = PStr s \<and>
        (strip s = [] \<or> lower (strip s) = lit ''null'' \<or> lower (strip s) = lit ''none''))
   \<Longrightarrow> vevent now_utc tzid i t = Inr [] \<and>
       to_ics_loop now_utc tzid i (t # ts) lines = to_ics_loop now_utc tzid (Suc i) ts lines"
proof -
  assume "due_local t = PNone \<or>
   (\<exists>s. due_local t = PStr s \<and>
        (strip s = [] \<or> lower (strip s) = lit ''null'' \<or> lower (strip s) = lit ''none''))"
  then have "parse_due t = Inr None"
    by (auto simp: parse_due_PNone parse_due_PStr)
  then have "vevent now_utc tzid i t = Inr []" by (rule vevent_skip)
  then show ?thesis by simp
qed

theorem skip_null_due_witness:
  "lower (strip (lit '' NoNe '')) = lit ''none'' \<and>
   vevent (lit ''20250301T123045Z'') (lit ''Asia/Seoul'') 0
     (example_task (lit ''a'') (PStr (lit '' NoNe ''))) = Inr [] \<and>
   to_ics_loop (lit ''20250301T123045Z'') (lit ''Asia/Seoul'') 0
     [example_task (lit ''a'') (PStr (lit '' NoNe ''))] [lit ''BEGIN:VCALENDAR''] =
   Inr [lit ''BEGIN:VCALENDAR'']"
proof -
  have l: "lower (strip (lit '' NoNe '')) = lit ''none''"
    by (simp add: string_eval)
  have d: "due_local (example_task (lit ''a'') (PStr (lit '' NoNe ''))) = PStr (lit '' NoNe '')"
    by (simp add: example_task_def)
  show ?thesis
    using skip_null_due
      [of "example_task (lit ''a'') (PStr (lit '' NoNe ''))" "lit ''20250301T123045Z''"
          "lit ''Asia/Seoul''" 0 "[]" "[lit ''BEGIN:VCALENDAR'']"] l d
    by simp
qed

section \<open>The event block\<close>

lemma summary_of_value:
  "summary_of t = Inr s \<Longrightarrow>
   s = (case task t of
          PStr d \<Rightarrow> if d = [] then placeholder
                    else strip (map (\<lambda>c. if c = 10 then 32 else c) d)
        | _ \<Rightarrow> placeholder)"
proof -
  have p: "strip (map (\<lambda>c. if c = 10 then 32 else c) placeholder) = placeholder"
    by (simp add: placeholder_def string_eval)
  have r: "\<And>d. replace [10] (lit '' '') d = map (\<lambda>c. if c = 10 then 32 else c) d"
    using replace_single[of 10 32] by (simp add: lit_def)
  assume "summary_of t = Inr s"
  then show ?thesis
    by (cases "task t") (auto simp: summary_of_def p r split: if_splits)
qed

lemma vevent_block:
  "vevent now_utc tzid i t = Inr ev \<Longrightarrow> ev \<noteq> [] \<Longrightarrow>
   \<exists>dt summary.
     parse_due t = Inr (Some dt) \<and> summary_of t = Inr summary \<and>
     ev = [lit ''BEGIN:VEVENT'',
           lit ''UID:'' @ (lit ''notice2do-'' @ str_nat i @ lit ''-'' @ strftime dt @ lit ''@local''),
           lit ''DTSTAMP:'' @ now_utc,
           lit ''DTSTART;TZID='' @ tzid @ lit '':'' @ strftime dt,
           lit ''DTEND;TZID='' @ tzid @ lit '':'' @ strftime dt,
           lit ''SUMMARY:'' @ summary,
           lit ''END:VEVENT'']"
  by (auto simp: vevent_def Let_def split: sum.splits option.splits)

lemma vevent_parsed:
  "parse_due t = Inr (Some dt) \<Longrightarrow> summary_of t = Inr summary \<Longrightarrow>
   vevent now_utc tzid i t =
     Inr [lit ''BEGIN:VEVENT'',
          lit ''UID:'' @ (lit ''notice2do-'' @ str_nat i @ lit ''-'' @ strftime dt @ lit ''@local''),
          lit ''DTSTAMP:'' @ now_utc,
          lit ''DTSTART;TZID='' @ tzid @ lit '':'' @ strftime dt,
          lit ''DTEND;TZID='' @ tzid @ lit '':'' @ strftime dt,
          lit ''SUMMARY:'' @ summary,
          lit ''END:VEVENT'']"
  by (simp add: vevent_def Let_def)

lemma parse_due_example:
  "due_local t = PStr (lit ''2025-03-10T09:00'') \<Longrightarrow>
   parse_due t =
     Inr (Some \<lparr>year = 2025, month = 3, day = 10, hour = 9, minute = 0, second = 0\<rparr>)"
  by (simp add: parse_due_PStr) (simp add: string_eval strptime_eval)

lemma strftime_example:
  "strftime \<lparr>year = 2025, month = 3, day = 10, hour = 9, minute = 0, second = 0\<rparr> =
     lit ''20250310T090000''"
  by (simp add: strftime_eval lit_def)

section \<open>Start and end of an event\<close>

text \<open>
  C5. A well-typed task with \<open>due_local = "2025-03-10T09:00"\<close> yields, for the zone
  \<open>Asia/Seoul\<close>, an event block whose fourth and fifth lines are
  \<open>DTSTART;TZID=Asia/Seoul:20250310T090000\<close> and \<open>DTEND;TZID=Asia/Seoul:20250310T090000\<close>;
  and every event block that the loop body emits has a \<open>DTSTART\<close> and a \<open>DTEND\<close> line
  that carry the given zone identifier and one and the same time stamp.
\<close>

theorem dtstart_equals_dtend:
  "(typed_task t \<and> due_local t = PStr (lit ''2025-03-10T09:00'') \<longrightarrow>
      (\<exists>a b c. vevent now_utc (lit ''Asia/Seoul'') i t =
         Inr [lit ''BEGIN:VEVENT'', a, b,
              lit ''DTSTART;TZID=Asia/Seoul:20250310T090000'',
              lit ''DTEND;TZID=Asia/Seoul:20250310T090000'', c, lit ''END:VEVENT''])) \<and>
   (\<forall>ev. vevent now_utc tzid i t = Inr ev \<and> ev \<noteq> [] \<longrightarrow>
      (\<exists>stamp a b c.
         ev = [lit ''BEGIN:VEVENT'', a, b,
               lit ''DTSTART;TZID='' @ tzid @ lit '':'' @ stamp,
               lit ''DTEND;TZID='' @ tzid @ lit '':'' @ stamp, c, lit ''END:VEVENT'']))"
proof (intro conjI impI allI)
  assume a: "typed_task t \<and> due_local t = PStr (lit ''2025-03-10T09:00'')"
  then obtain summary where s: "summary_of t = Inr summary"
    using summary_of_typed[of t] by auto
  from a have p: "parse_due t =
      Inr (Some \<lparr>year = 2025, month = 3, day = 10, hour = 9, minute = 0, second = 0\<rparr>)"
    by (simp add: parse_due_example)
  show "\<exists>a b c. vevent now_utc (lit ''Asia/Seoul'') i t =
         Inr [lit ''BEGIN:VEVENT'', a, b,
              lit ''DTSTART;TZID=Asia/Seoul:20250310T090000'',
              lit ''DTEND;TZID=Asia/Seoul:20250310T090000'', c, lit ''END:VEVENT'']"
    unfolding vevent_parsed[OF p s] strftime_example by (simp add: lit_def)
next
  fix ev
  assume "vevent now_utc tzid i t = Inr ev \<and> ev \<noteq> []"
  then show "\<exists>stamp a b c.
         ev = [lit ''BEGIN:VEVENT'', a, b,
               lit ''DTSTART;TZID='' @ tzid @ lit '':'' @ stamp,
               lit ''DTEND;TZID='' @ tzid @ lit '':'' @ stamp, c, lit ''END:VEVENT'']"
    using vevent_block[of now_utc tzid i t ev] by auto
qed

theorem dtstart_equals_dtend_witness:
  "typed_task (example_task (lit ''Submit'') (PStr (lit ''2025-03-10T09:00''))) \<and>
   vevent (lit ''20250301T123045Z'') (lit ''Asia/Seoul'') 0
     (example_task (lit ''Submit'') (PStr (lit ''2025-03-10T09:00''))) =
   Inr [lit ''BEGIN:VEVENT'',
        lit ''UID:notice2do-0-20250310T090000@local'',
        lit ''DTSTAMP:20250301T123045Z'',
        lit ''DTSTART;TZID=Asia/Seoul:20250310T090000'',
        lit ''DTEND;TZID=Asia/Seoul:20250310T090000'',
        lit ''SUMMARY:Submit'',
        lit ''END:VEVENT'']"
proof -
  let ?t = "example_task (lit ''Submit'') (PStr (lit ''2025-03-10T09:00''))"
  have ty: "typed_task ?t" by (simp add: typed_task_def example_task_def)
  have du: "due_local ?t = PStr (lit ''2025-03-10T09:00'')" by (simp add: example_task_def)
  from dtstart_equals_dtend[of ?t "lit ''20250301T123045Z''" 0 "lit ''Asia/Seoul''"] ty du
  obtain a b c where v: "vevent (lit ''20250301T123045Z'') (lit ''Asia/Seoul'') 0 ?t =
         Inr [lit ''BEGIN:VEVENT'', a, b,
              lit ''DTSTART;TZID=Asia/Seoul:20250310T090000'',
              lit ''DTEND;TZID=Asia/Seoul:20250310T090000'', c, lit ''END:VEVENT'']"
    by blast
  have s: "summary_of ?t = Inr (lit ''Submit'')"
    by (simp add: summary_of_def example_task_def replace_single) (simp add: string_eval)
  have "vevent (lit ''20250301T123045Z'') (lit ''Asia/Seoul'') 0 ?t =
     Inr [lit ''BEGIN:VEVENT'',
        lit ''UID:notice2do-0-20250310T090000@local'',
        lit ''DTSTAMP:20250301T123045Z'',
        lit ''DTSTART;TZID=Asia/Seoul:20250310T090000'',
        lit ''DTEND;TZID=Asia/Seoul:20250310T090000'',
        lit ''SUMMARY:Submit'',
        lit ''END:VEVENT'']"
    unfolding vevent_parsed[OF parse_due_example[OF du] s] strftime_example
    by (simp add: lit_def str_nat.simps)
  with ty v show ?thesis by simp
qed

section \<open>The summary of an event\<close>

text \<open>
  C7. In every event block that the loop body emits, the \<open>SUMMARY\<close> line holds the task
  description with each line feed replaced by a space and the white space at both ends
  removed; when the description is empty (or absent) it holds the placeholder. A
  description \<open>Submit\<close>, line feed, \<open>report\<close> gives \<open>SUMMARY:Submit report\<close>.
\<close>

theorem summary_field:
  "vevent now_utc tzid i t = Inr ev \<Longrightarrow> ev \<noteq> [] \<Longrightarrow>
   (\<exists>a b c d.
      ev = [lit ''BEGIN:VEVENT'', a, b, c, d,
            lit ''SUMMARY:'' @
              (case task t of
                 PStr desc \<Rightarrow> if desc = [] then placeholder
                              else strip (map (\<lambda>ch. if ch = 10 then 32 else ch) desc)
               | _ \<Rightarrow> placeholder),
            lit ''END:VEVENT'']) \<and>
   (task t = PStr (lit ''Submit'' @ [10] @ lit ''report'') \<longrightarrow>
      ev ! 5 = lit ''SUMMARY:Submit report'')"
proof -
  assume v: "vevent now_utc tzid i t = Inr ev" and ne: "ev \<noteq> []"
  from vevent_block[OF v ne] obtain dt summary where
    s: "summary_of t = Inr summary" and
    ev: "ev = [lit ''BEGIN:VEVENT'',
           lit ''UID:'' @ (lit ''notice2do-'' @ str_nat i @ lit ''-'' @ strftime dt @ lit ''@local''),
           lit ''DTSTAMP:'' @ now_utc,
           lit ''DTSTART;TZID='' @ tzid @ lit '':'' @ strftime dt,
           lit ''DTEND;TZID='' @ tzid @ lit '':'' @ strftime dt,
           lit ''SUMMARY:'' @ summary,
           lit ''END:VEVENT'']"
    by blast
  note sv = summary_of_value[OF s]
  have ex: "strip (map (\<lambda>ch. if ch = 10 then 32 else ch) (lit ''Submit'' @ [10] @ lit ''report''))
              = lit ''Submit report''"
    by (simp add: string_eval)
  have first: "\<exists>a b c d.
      ev = [lit ''BEGIN:VEVENT'', a, b, c, d,
            lit ''SUMMARY:'' @
              (case task t of
                 PStr desc \<Rightarrow> if desc = [] then placeholder
                              else strip (map (\<lambda>ch. if ch = 10 then 32 else ch) desc)
               | _ \<Rightarrow> placeholder),
            lit ''END:VEVENT'']"
    unfolding ev sv by blast
  have second: "task t = PStr (lit ''Submit'' @ [10] @ lit ''report'') \<longrightarrow>
      ev ! 5 = lit ''SUMMARY:Submit report''"
  proof
    assume tk: "task t = PStr (lit ''Submit'' @ [10] @ lit ''report'')"
    have "summary = lit ''Submit report''"
      using sv ex unfolding tk by (simp add: lit_def)
    then show "ev ! 5 = lit ''SUMMARY:Submit report''"
      unfolding ev by (simp add: lit_def)
  qed
  from first second show ?thesis by blast
qed

theorem summary_field_witness:
  "vevent (lit ''20250301T123045Z'') (lit ''Asia/Seoul'') 0
     (example_task (lit ''Submit'' @ [10] @ lit ''report'') (PStr (lit ''2025-03-10T09:00''))) =
   Inr [lit ''BEGIN:VEVENT'',
        lit ''UID:notice2do-0-20250310T090000@local'',
        lit ''DTSTAMP:20250301T123045Z'',
        lit ''DTSTART;TZID=Asia/Seoul:20250310T090000'',
        lit ''DTEND;TZID=Asia/Seoul:20250310T090000'',
        lit ''SUMMARY:Submit report'',
        lit ''END:VEVENT''] \<and>
   [lit ''BEGIN:VEVENT'',
        lit ''UID:notice2do-0-20250310T090000@local'',
        lit ''DTSTAMP:20250301T123045Z'',
        lit ''DTSTART;TZID=Asia/Seoul:20250310T090000'',
        lit ''DTEND;TZID=Asia/Seoul:20250310T090000'',
        lit ''SUMMARY:Submit report'',
        lit ''END:VEVENT''] ! 5 = lit ''SUMMARY:Submit report''"
proof -
  let ?t = "example_task (lit ''Submit'' @ [10] @ lit ''report'') (PStr (lit ''2025-03-10T09:00''))"
  let ?ev = "[lit ''BEGIN:VEVENT'',
        lit ''UID:notice2do-0-20250310T090000@local'',
        lit ''DTSTAMP:20250301T123045Z'',
        lit ''DTSTART;TZID=Asia/Seoul:20250310T090000'',
        lit ''DTEND;TZID=Asia/Seoul:20250310T090000'',
        lit ''SUMMARY:Submit report'',
        lit ''END:VEVENT'']"
  have du: "due_local ?t = PStr (lit ''2025-03-10T09:00'')" by (simp add: example_task_def)
  have tk: "task ?t = PStr (lit ''Submit'' @ [10] @ lit ''report'')" by (simp add: example_task_def)
  have s: "summary_of ?t = Inr (lit ''Submit report'')"
    by (simp add: summary_of_def example_task_def replace_single lit_def)
       (simp add: string_eval)
  have v: "vevent (lit ''20250301T123045Z'') (lit ''Asia/Seoul'') 0 ?t = Inr ?ev"
    unfolding vevent_parsed[OF parse_due_example[OF du] s] strftime_example
    by (simp add: lit_def str_nat.simps)
  have ne: "?ev \<noteq> []" by simp
  from summary_field[OF v ne] tk have "?ev ! 5 = lit ''SUMMARY:Submit report''" by blast
  with v show ?thesis by blast
qed

section \<open>Lines of a document\<close>

lemma split_lines_no_lf: "10 \<notin> set l \<Longrightarrow> split_lines l = [l]"
  by (induction l) auto

lemma split_lines_append: "10 \<notin> set l \<Longrightarrow> split_lines (l @ 10 # r) = l # split_lines r"
  by (induction l) auto

lemma split_lines_join:
  "ls \<noteq> [] \<Longrightarrow> \<forall>l\<in>set ls. 10 \<notin> set l \<Longrightarrow> split_lines (join [10] ls) = ls"
proof (induction "[10::nat]" ls rule: join.induct)
  case 1
  then show ?case by simp
next
  case (2 x)
  then show ?case by (simp add: split_lines_no_lf)
next
  case (3 x y ys)
  then show ?case by (simp add: split_lines_append)
qed

lemma join_snoc: "xs \<noteq> [] \<Longrightarrow> join sep (xs @ [x]) = join sep xs @ sep @ x"
  by (induction sep xs rule: join.induct) auto

lemma str_nat_digits: "c \<in> set (str_nat n) \<Longrightarrow> 48 \<le> c \<and> c \<le> 57"
proof (induction n rule: str_nat.induct)
  case (1 n)
  show ?case
  proof (cases "n < 10")
    case True
    with "1.prems" show ?thesis by (simp add: str_nat.simps[of n])
  next
    case False
    have "n mod 10 < 10" by simp
    with False "1.prems" "1.IH" show ?thesis
      by (auto simp: str_nat.simps[of n])
  qed
qed

lemma zpad_digits: "c \<in> set (zpad w n) \<Longrightarrow> 48 \<le> c \<and> c \<le> 57"
  using str_nat_digits[of c n] by (auto simp: zpad_def)

lemma strftime_chars: "c \<in> set (strftime dt) \<Longrightarrow> (48 \<le> c \<and> c \<le> 57) \<or> c = 84"
  by (auto simp: strftime_def dest: zpad_digits)

lemma strftime_no_lf: "10 \<notin> set (strftime dt)"
  using strftime_chars[of 10 dt] by auto

lemma str_nat_no_lf: "10 \<notin> set (str_nat n)"
  using str_nat_digits[of 10 n] by auto

lemma summary_no_lf: "summary_of t = Inr s \<Longrightarrow> 10 \<notin> set s"
proof -
  assume "summary_of t = Inr s"
  then obtain d where s: "s = strip (map (\<lambda>c. if c = 10 then 32 else c) d)"
    by (auto simp: summary_of_def replace_single lit_def split: pyval.splits if_splits)
  have "10 \<notin> set (map (\<lambda>c. if c = 10 then 32 else c) d)" by auto
  with set_strip[of "map (\<lambda>c. if c = (10::nat) then 32 else c) d"] show ?thesis
    unfolding s by blast
qed

lemma vevent_no_lf:
  assumes "vevent now_utc tzid i t = Inr ev" "10 \<notin> set now_utc" "10 \<notin> set tzid" "l \<in> set ev"
  shows "10 \<notin> set l"
proof -
  from assms(4) have ne: "ev \<noteq> []" by auto
  from vevent_block[OF assms(1) ne] obtain dt summary where
    s: "summary_of t = Inr summary" and
    ev: "ev = [lit ''BEGIN:VEVENT'',
           lit ''UID:'' @ (lit ''notice2do-'' @ str_nat i @ lit ''-'' @ strftime dt @ lit ''@local''),
           lit ''DTSTAMP:'' @ now_utc,
           lit ''DTSTART;TZID='' @ tzid @ lit '':'' @ strftime dt,
           lit ''DTEND;TZID='' @ tzid @ lit '':'' @ strftime dt,
           lit ''SUMMARY:'' @ summary,
           lit ''END:VEVENT'']"
    by blast
  from assms(4) show ?thesis
    unfolding ev
    using summary_no_lf[OF s] assms(2,3) strftime_no_lf[of dt] str_nat_no_lf[of i]
    by (auto simp: lit_def)
qed

lemma events_of_no_lf:
  "10 \<notin> set now_utc \<Longrightarrow> 10 \<notin> set tzid \<Longrightarrow> l \<in> set (events_of now_utc tzid i ts) \<Longrightarrow>
   10 \<notin> set l"
proof (induction ts arbitrary: i)
  case Nil
  then show ?case by (simp add: events_of_Nil)
next
  case (Cons t ts)
  show ?case
  proof (cases "vevent now_utc tzid i t")
    case (Inl e)
    with Cons show ?thesis by (simp add: events_of_Cons)
  next
    case (Inr ev)
    with Cons.prems(3) have "l \<in> set ev \<or> l \<in> set (events_of now_utc tzid (Suc i) ts)"
      by (simp add: events_of_Cons)
    then show ?thesis
      using vevent_no_lf[OF Inr Cons.prems(1,2)] Cons.IH[OF Cons.prems(1,2)] by blast
  qed
qed

lemma to_ics_lines:
  assumes "list_all typed_task tasks" "10 \<notin> set tzid"
  shows "\<exists>doc. to_ics e tasks tzid = Inr doc \<and>
     split_lines doc =
       [lit ''BEGIN:VCALENDAR'', lit ''VERSION:2.0'', lit ''PRODID:-//Notice2Do//KR//EN'',
        lit ''CALSCALE:GREGORIAN''] @
       events_of (strftime (now e) @ lit ''Z'') tzid 0 tasks @ [lit ''END:VCALENDAR'']"
proof -
  let ?now = "strftime (now e) @ lit ''Z''"
  let ?ls = "[lit ''BEGIN:VCALENDAR'', lit ''VERSION:2.0'', lit ''PRODID:-//Notice2Do//KR//EN'',
        lit ''CALSCALE:GREGORIAN''] @ events_of ?now tzid 0 tasks @ [lit ''END:VCALENDAR'']"
  have n: "10 \<notin> set ?now" using strftime_no_lf[of "now e"] by (simp add: lit_def)
  have "\<forall>l\<in>set ?ls. 10 \<notin> set l"
    using events_of_no_lf[OF n assms(2)] by (auto simp: lit_def)
  moreover have "?ls \<noteq> []" by simp
  ultimately have "split_lines (join [10] ?ls) = ?ls" by (rule split_lines_join[rotated])
  with to_ics_typed[OF assms(1), of e tzid] show ?thesis by simp
qed

section \<open>Counting the events\<close>

lemma vevent_count:
  "vevent now_utc tzid i t = Inr ev \<Longrightarrow>
   length (filter (\<lambda>l. l = lit ''BEGIN:VEVENT'') ev) = (if is_parsed t then 1 else 0)"
proof (cases "ev = []")
  case True
  assume v: "vevent now_utc tzid i t = Inr ev"
  with True have "\<not> is_parsed t"
    by (auto simp: vevent_def is_parsed_def Let_def split: sum.splits option.splits)
  with True show ?thesis by simp
next
  case False
  assume v: "vevent now_utc tzid i t = Inr ev"
  from vevent_block[OF v False] show ?thesis
    by (auto simp: is_parsed_def lit_def)
qed

lemma events_of_count:
  "list_all typed_task ts \<Longrightarrow>
   length (filter (\<lambda>l. l = lit ''BEGIN:VEVENT'') (events_of now_utc tzid i ts)) =
   length (filter is_parsed ts)"
proof (induction ts arbitrary: i)
  case Nil
  then show ?case by (simp add: events_of_Nil)
next
  case (Cons t ts)
  from Cons.prems obtain ev where ev: "vevent now_utc tzid i t = Inr ev"
    using vevent_typed[of t now_utc tzid i] by auto
  from Cons.prems have "list_all typed_task ts" by simp
  from Cons.IH[OF this, of "Suc i"] vevent_count[OF ev] ev show ?case
    by (simp add: events_of_Cons)
qed

text \<open>
  C3. For every sequence of well-typed tasks and every zone identifier without a line
  feed, the document starts with the line \<open>BEGIN:VCALENDAR\<close>, ends with the line
  \<open>END:VCALENDAR\<close>, and has as many \<open>BEGIN:VEVENT\<close> lines as there are tasks whose
  \<open>due_local\<close> the parse step accepts.
\<close>

theorem document_shape:
  "list_all typed_task tasks \<Longrightarrow> 10 \<notin> set tzid \<Longrightarrow>
   \<exists>doc. to_ics e tasks tzid = Inr doc \<and>
     prefix (lit ''BEGIN:VCALENDAR'' @ [10]) doc \<and>
     suffix ([10] @ lit ''END:VCALENDAR'') doc \<and>
     hd (split_lines doc) = lit ''BEGIN:VCALENDAR'' \<and>
     last (split_lines doc) = lit ''END:VCALENDAR'' \<and>
     count_events doc = length (filter is_parsed tasks)"
proof -
  assume ty: "list_all typed_task tasks" and tz: "10 \<notin> set tzid"
  let ?now = "strftime (now e) @ lit ''Z''"
  let ?hd = "[lit ''BEGIN:VCALENDAR'', lit ''VERSION:2.0'', lit ''PRODID:-//Notice2Do//KR//EN'',
        lit ''CALSCALE:GREGORIAN'']"
  let ?body = "?hd @ events_of ?now tzid 0 tasks"
  from to_ics_lines[OF ty tz, of e] obtain doc where
    doc: "to_ics e tasks tzid = Inr doc" and
    ls: "split_lines doc = ?hd @ events_of ?now tzid 0 tasks @ [lit ''END:VCALENDAR'']"
    by blast
  from doc to_ics_typed[OF ty, of e tzid] have
    j: "doc = join [10] (?body @ [lit ''END:VCALENDAR''])" by simp
  have p: "prefix (lit ''BEGIN:VCALENDAR'' @ [10]) doc"
    unfolding j by simp
  have "?body \<noteq> []" by simp
  from join_snoc[OF this, of "[10]" "lit ''END:VCALENDAR''"] have
    "doc = join [10] ?body @ [10] @ lit ''END:VCALENDAR''" unfolding j .
  then have s: "suffix ([10] @ lit ''END:VCALENDAR'') doc"
    unfolding suffix_def by blast
  have h: "hd (split_lines doc) = lit ''BEGIN:VCALENDAR''" unfolding ls by simp
  have l: "last (split_lines doc) = lit ''END:VCALENDAR''" unfolding ls by simp
  have c: "count_events doc = length (filter is_parsed tasks)"
    unfolding count_events_def ls using events_of_count[OF ty, of ?now tzid 0]
    by (simp add: lit_def)
  from doc p s h l c show ?thesis by blast
qed

theorem document_shape_witness:
  "list_all typed_task
     [example_task (lit ''a'') (PStr (lit ''2025-03-10T09:00'')),
      example_task (lit ''b'') (PStr (lit ''2025/03/10 09:00'')),
      example_task (lit ''c'') PNone] \<and>
   10 \<notin> set (lit ''Asia/Seoul'') \<and>
   (\<exists>doc. to_ics example_env
       [example_task (lit ''a'') (PStr (lit ''2025-03-10T09:00'')),
        example_task (lit ''b'') (PStr (lit ''2025/03/10 09:00'')),
        example_task (lit ''c'') PNone] (lit ''Asia/Seoul'') = Inr doc \<and>
     prefix (lit ''BEGIN:VCALENDAR'' @ [10]) doc \<and>
     suffix ([10] @ lit ''END:VCALENDAR'') doc \<and>
     hd (split_lines doc) = lit ''BEGIN:VCALENDAR'' \<and>
     last (split_lines doc) = lit ''END:VCALENDAR'' \<and>
     count_events doc = 1)"
proof -
  let ?a = "example_task (lit ''a'') (PStr (lit ''2025-03-10T09:00''))"
  let ?b = "example_task (lit ''b'') (PStr (lit ''2025/03/10 09:00''))"
  let ?c = "example_task (lit ''c'') PNone"
  have ty: "list_all typed_task [?a, ?b, ?c]"
    by (simp add: typed_task_def example_task_def)
  have tz: "10 \<notin> set (lit ''Asia/Seoul'')" by (simp add: lit_def)
  have a: "is_parsed ?a"
    using parse_due_example[of ?a] by (simp add: is_parsed_def example_task_def)
  have "strptime (replace (lit ''T'') (lit '' '') (strip (lit ''2025/03/10 09:00''))) =
          Inl ValueError"
    by (simp add: string_eval strptime_eval)
  then have b: "\<not> is_parsed ?b"
    using parse_due_PStr[of ?b "lit ''2025/03/10 09:00''"]
    by (simp add: is_parsed_def example_task_def split: if_splits)
  have c: "\<not> is_parsed ?c"
    using parse_due_PNone[of ?c] by (simp add: is_parsed_def example_task_def)
  from a b c have n: "length (filter is_parsed [?a, ?b, ?c]) = 1" by simp
  from document_shape[OF ty tz, of example_env] n ty tz show ?thesis by auto
qed

section \<open>Unique identifiers\<close>

lemma str_nat_value: "foldl (\<lambda>a c. 10 * a + (c - 48)) 0 (str_nat n) = n"
proof (induction n rule: str_nat.induct)
  case (1 n)
  show ?case
  proof (cases "n < 10")
    case True
    then show ?thesis by (simp add: str_nat.simps[of n])
  next
    case False
    with "1.IH" show ?thesis by (simp add: str_nat.simps[of n])
  qed
qed

lemma str_nat_inj:
  assumes "str_nat a = str_nat b"
  shows "a = b"
proof -
  have "a = foldl (\<lambda>a c. 10 * a + (c - 48)) 0 (str_nat a)"
    by (simp only: str_nat_value)
  also have "\<dots> = foldl (\<lambda>a c. 10 * a + (c - 48)) 0 (str_nat b)"
    by (simp only: assms)
  also have "\<dots> = b"
    by (simp only: str_nat_value)
  finally show ?thesis .
qed

lemma split_at_mark:
  assumes "k \<notin> set a" "k \<notin> set b" "a @ k # r = b @ k # r'"
  shows "a = b"
proof -
  have "takeWhile (\<lambda>c. c \<noteq> k) (a @ k # r) = a" using assms(1) by (induction a) auto
  moreover have "takeWhile (\<lambda>c. c \<noteq> k) (b @ k # r') = b"
    using assms(2) by (induction b) auto
  ultimately show ?thesis using assms(3) by simp
qed

lemma uid_line_inj:
  assumes "uid_line k t = uid_line k' t'"
  shows "k = k'"
proof -
  define r where "r = (case parse_due t of Inr (Some dt) \<Rightarrow> strftime dt | _ \<Rightarrow> []) @ lit ''@local''"
  define r' where "r' = (case parse_due t' of Inr (Some dt) \<Rightarrow> strftime dt | _ \<Rightarrow> []) @ lit ''@local''"
  have u: "uid_line k t = lit ''UID:notice2do-'' @ (str_nat k @ 45 # r)"
    by (simp add: uid_line_def r_def lit_def)
  have u': "uid_line k' t' = lit ''UID:notice2do-'' @ (str_nat k' @ 45 # r')"
    by (simp add: uid_line_def r'_def lit_def)
  from assms have e: "str_nat k @ 45 # r = str_nat k' @ 45 # r'"
    unfolding u u' by (simp only: same_append_eq)
  have "45 \<notin> set (str_nat k)" "45 \<notin> set (str_nat k')"
    using str_nat_digits[of 45 k] str_nat_digits[of 45 k'] by auto
  then have "str_nat k = str_nat k'" using e by (rule split_at_mark)
  then show ?thesis by (rule str_nat_inj)
qed

lemma vevent_uid:
  "vevent now_utc tzid k t = Inr ev \<Longrightarrow>
   filter (prefix (lit ''UID:'')) ev = (if is_parsed t then [uid_line k t] else [])"
proof (cases "ev = []")
  case True
  assume v: "vevent now_utc tzid k t = Inr ev"
  with True have "\<not> is_parsed t"
    by (auto simp: vevent_def is_parsed_def Let_def split: sum.splits option.splits)
  with True show ?thesis by simp
next
  case False
  assume v: "vevent now_utc tzid k t = Inr ev"
  from vevent_block[OF v False] show ?thesis
    by (auto simp: is_parsed_def uid_line_def lit_def)
qed

lemma events_of_uids:
  "list_all typed_task ts \<Longrightarrow>
   filter (prefix (lit ''UID:'')) (events_of now_utc tzid i ts) =
   map (case_prod uid_line) (filter (is_parsed \<circ> snd) (enumerate i ts))"
proof (induction ts arbitrary: i)
  case Nil
  then show ?case by (simp add: events_of_Nil)
next
  case (Cons t ts)
  from Cons.prems obtain ev where ev: "vevent now_utc tzid i t = Inr ev"
    using vevent_typed[of t now_utc tzid i] by auto
  from Cons.prems have "list_all typed_task ts" by simp
  from Cons.IH[OF this, of "Suc i"] vevent_uid[OF ev] ev show ?case
    by (simp add: events_of_Cons)
qed

lemma uid_lines_distinct:
  "distinct (map (case_prod uid_line) (filter (is_parsed \<circ> snd) (enumerate i ts)))"
proof -
  have d: "distinct (filter (is_parsed \<circ> snd) (enumerate i ts))"
    by simp
  have "inj_on (case_prod uid_line) (set (enumerate i ts))"
  proof (rule inj_onI)
    fix x y
    assume x: "x \<in> set (enumerate i ts)" and y: "y \<in> set (enumerate i ts)"
      and e: "case_prod uid_line x = case_prod uid_line y"
    obtain k t where xk: "x = (k, t)" by (cases x)
    obtain k' t' where yk: "y = (k', t')" by (cases y)
    from e xk yk have "k = k'" using uid_line_inj by simp
    with x y xk yk show "x = y" by (auto simp: in_set_enumerate_eq)
  qed
  then have "inj_on (case_prod uid_line) (set (filter (is_parsed \<circ> snd) (enumerate i ts)))"
    by (rule inj_on_subset) auto
  with d show ?thesis by (simp add: distinct_map)
qed

text \<open>
  C8. In the document of any sequence of well-typed tasks (with a zone identifier that
  has no line feed), the \<open>UID\<close> lines are those of the parsed tasks, each made of the
  task's zero-based index and its formatted start time, and they are pairwise distinct,
  also when several tasks have the same \<open>due_local\<close>.
\<close>

theorem uids_distinct:
  "list_all typed_task tasks \<Longrightarrow> 10 \<notin> set tzid \<Longrightarrow>
   \<exists>doc. to_ics e tasks tzid = Inr doc \<and>
     uid_lines doc = map (case_prod uid_line) (filter (is_parsed \<circ> snd) (enumerate 0 tasks)) \<and>
     distinct (uid_lines doc)"
proof -
  assume ty: "list_all typed_task tasks" and tz: "10 \<notin> set tzid"
  let ?now = "strftime (now e) @ lit ''Z''"
  from to_ics_lines[OF ty tz, of e] obtain doc where
    doc: "to_ics e tasks tzid = Inr doc" and
    ls: "split_lines doc =
       [lit ''BEGIN:VCALENDAR'', lit ''VERSION:2.0'', lit ''PRODID:-//Notice2Do//KR//EN'',
        lit ''CALSCALE:GREGORIAN''] @ events_of ?now tzid 0 tasks @ [lit ''END:VCALENDAR'']"
    by blast
  have u: "uid_lines doc =
      map (case_prod uid_line) (filter (is_parsed \<circ> snd) (enumerate 0 tasks))"
    unfolding uid_lines_def ls using events_of_uids[OF ty, of ?now tzid 0]
    by (simp add: lit_def)
  from doc u uid_lines_distinct[of 0 tasks] show ?thesis by simp
qed

theorem uids_distinct_witness:
  "list_all typed_task
     [example_task (lit ''a'') (PStr (lit ''2025-03-10T09:00'')),
      example_task (lit ''b'') (PStr (lit ''2025-03-10T09:00''))] \<and>
   10 \<notin> set (lit ''Asia/Seoul'') \<and>
   (\<exists>doc. to_ics example_env
       [example_task (lit ''a'') (PStr (lit ''2025-03-10T09:00'')),
        example_task (lit ''b'') (PStr (lit ''2025-03-10T09:00''))] (lit ''Asia/Seoul'') = Inr doc \<and>
     uid_lines doc =
       [lit ''UID:notice2do-0-20250310T090000@local'',
        lit ''UID:notice2do-1-20250310T090000@local''] \<and>
     distinct (uid_lines doc))"
proof -
  let ?a = "example_task (lit ''a'') (PStr (lit ''2025-03-10T09:00''))"
  let ?b = "example_task (lit ''b'') (PStr (lit ''2025-03-10T09:00''))"
  have ty: "list_all typed_task [?a, ?b]"
    by (simp add: typed_task_def example_task_def)
  have tz: "10 \<notin> set (lit ''Asia/Seoul'')" by (simp add: lit_def)
  have pa: "parse_due ?a =
      Inr (Some \<lparr>year = 2025, month = 3, day = 10, hour = 9, minute = 0, second = 0\<rparr>)"
    by (rule parse_due_example) (simp add: example_task_def)
  have pb: "parse_due ?b =
      Inr (Some \<lparr>year = 2025, month = 3, day = 10, hour = 9, minute = 0, second = 0\<rparr>)"
    by (rule parse_due_example) (simp add: example_task_def)
  have ua: "uid_line 0 ?a = lit ''UID:notice2do-0-20250310T090000@local''"
    unfolding uid_line_def pa by (simp add: strftime_example) (simp add: lit_def str_nat.simps)
  have ub: "uid_line (Suc 0) ?b = lit ''UID:notice2do-1-20250310T090000@local''"
    unfolding uid_line_def pb by (simp add: strftime_example) (simp add: lit_def str_nat.simps)
  have "map (case_prod uid_line) (filter (is_parsed \<circ> snd) (enumerate 0 [?a, ?b])) =
        [lit ''UID:notice2do-0-20250310T090000@local'',
         lit ''UID:notice2do-1-20250310T090000@local'']"
    using pa pb ua ub by (simp add: is_parsed_def)
  with uids_distinct[OF ty tz, of example_env] ty tz show ?thesis by auto
qed

section \<open>The credential checks of call_ai\<close>

lemma bad_chars_empty: "bad_chars k = [] \<longleftrightarrow> (\<forall>c\<in>set k. c \<le> 127)"
proof -
  have "bad_chars k = [] \<longleftrightarrow> (\<forall>p\<in>set (enumerate 0 k). snd p \<le> 127)"
    by (auto simp: bad_chars_def filter_empty_conv not_less)
  also have "\<dots> \<longleftrightarrow> (\<forall>c\<in>snd ` set (enumerate 0 k). c \<le> 127)" by blast
  also have "snd ` set (enumerate 0 k) = set k"
    using map_snd_enumerate[of 0 k] by (metis set_map)
  finally show ?thesis .
qed

lemma messages_distinct:
  "msg_missing \<noteq> msg_malformed" "msg_nonascii ps \<noteq> msg_missing"
  "msg_nonascii ps \<noteq> msg_malformed"
  by (simp_all add: msg_missing_def msg_malformed_def msg_nonascii_def lit_def)

lemma call_ai_missing:
  "strip (case secret_OPENAI_API_KEY e of None \<Rightarrow> [] | Some c \<Rightarrow> c) = [] \<Longrightarrow>
   call_ai backend loads e raw_text = (Inl (RuntimeError msg_missing), [])"
  by (simp add: call_ai_def)

lemma call_ai_nonascii:
  "k = strip (case secret_OPENAI_API_KEY e of None \<Rightarrow> [] | Some c \<Rightarrow> c) \<Longrightarrow>
   bad_chars k \<noteq> [] \<Longrightarrow>
   call_ai backend loads e raw_text =
     (Inl (RuntimeError (msg_nonascii (take 10 (bad_chars k)))), [])"
proof -
  assume k: "k = strip (case secret_OPENAI_API_KEY e of None \<Rightarrow> [] | Some c \<Rightarrow> c)"
    and b: "bad_chars k \<noteq> []"
  from b have "k \<noteq> []" by (auto simp: bad_chars_def)
  with k b show ?thesis by (simp add: call_ai_def Let_def)
qed

lemma call_ai_malformed:
  "k = strip (case secret_OPENAI_API_KEY e of None \<Rightarrow> [] | Some c \<Rightarrow> c) \<Longrightarrow>
   k \<noteq> [] \<Longrightarrow> bad_chars k = [] \<Longrightarrow> \<not> startswith k (lit ''sk-'') \<Longrightarrow>
   call_ai backend loads e raw_text = (Inl (RuntimeError msg_malformed), [])"
  by (simp add: call_ai_def Let_def)

lemma call_ai_accepted:
  "k = strip (case secret_OPENAI_API_KEY e of None \<Rightarrow> [] | Some c \<Rightarrow> c) \<Longrightarrow>
   k \<noteq> [] \<Longrightarrow> bad_chars k = [] \<Longrightarrow> startswith k (lit ''sk-'') \<Longrightarrow>
   call_ai backend loads e raw_text =
     (let req = \<lparr>api_key_of = k, model_of = lit ''gpt-4o-mini'',
                 user_content = [91, 50896, 47928, 93, 10] @ raw_text @ [10]\<rparr>
      in (case backend req of Inl err \<Rightarrow> Inl err | Inr output_text \<Rightarrow> loads output_text, [req]))"
  by (simp add: call_ai_def Let_def split: sum.splits)

text \<open>
  C2, as the claim states it, fails: the credential \<open>sk-abc\<close> followed by a no-break
  space (U+00A0) contains a character with a code point above 127, yet \<open>call_ai\<close> raises
  nothing and sends the request. \<open>strip\<close> removes the no-break space before the checks.
\<close>

theorem credential_checks_counterexample:
  "160 \<in> set (lit ''sk-abc'' @ [160]) \<and> (127::nat) < 160 \<and>
   call_ai example_backend example_loads
     (example_env\<lparr>secret_OPENAI_API_KEY := Some (lit ''sk-abc'' @ [160])\<rparr>) (lit ''notice'') =
   (Inr (),
    [\<lparr>api_key_of = lit ''sk-abc'', model_of = lit ''gpt-4o-mini'',
      user_content = [91, 50896, 47928, 93, 10] @ lit ''notice'' @ [10]\<rparr>])"
proof -
  let ?e = "example_env\<lparr>secret_OPENAI_API_KEY := Some (lit ''sk-abc'' @ [160])\<rparr>"
  have k: "lit ''sk-abc'' =
      strip (case secret_OPENAI_API_KEY ?e of None \<Rightarrow> [] | Some c \<Rightarrow> c)"
    by (simp add: string_eval)
  have n: "lit ''sk-abc'' \<noteq> []" by (simp add: lit_def)
  have b: "bad_chars (lit ''sk-abc'') = []" by (simp add: bad_chars_empty) (simp add: lit_def)
  have s: "startswith (lit ''sk-abc'') (lit ''sk-'')" by (simp add: string_eval)
  from call_ai_accepted[OF k n b s, of example_backend example_loads "lit ''notice''"]
  show ?thesis by (simp add: example_backend_def example_loads_def)
qed

text \<open>
  C2, amended. For every credential that after trimming is empty, or after trimming
  contains a character with a code point above 127, or after trimming does not start
  with \<open>sk-\<close>, \<open>call_ai\<close> raises the error of the first of these checks that fails
  (presence, then ASCII, then prefix), each with a message of its own, and no request
  goes out.
\<close>

theorem credential_checks:
  "k = strip (case secret_OPENAI_API_KEY e of None \<Rightarrow> [] | Some c \<Rightarrow> c) \<Longrightarrow>
   k = [] \<or> (\<exists>c\<in>set k. 127 < c) \<or> \<not> startswith k (lit ''sk-'') \<Longrightarrow>
   call_ai backend loads e raw_text =
     (Inl (RuntimeError
        (if k = [] then msg_missing
         else if \<exists>c\<in>set k. 127 < c then msg_nonascii (take 10 (bad_chars k))
         else msg_malformed)), []) \<and>
   msg_missing \<noteq> msg_malformed \<and>
   msg_nonascii (take 10 (bad_chars k)) \<noteq> msg_missing \<and>
   msg_nonascii (take 10 (bad_chars k)) \<noteq> msg_malformed"
proof -
  assume k: "k = strip (case secret_OPENAI_API_KEY e of None \<Rightarrow> [] | Some c \<Rightarrow> c)"
    and f: "k = [] \<or> (\<exists>c\<in>set k. 127 < c) \<or> \<not> startswith k (lit ''sk-'')"
  have b: "bad_chars k \<noteq> [] \<longleftrightarrow> (\<exists>c\<in>set k. 127 < c)"
    by (auto simp: bad_chars_empty not_le)
  have "call_ai backend loads e raw_text =
     (Inl (RuntimeError
        (if k = [] then msg_missing
         else if \<exists>c\<in>set k. 127 < c then msg_nonascii (take 10 (bad_chars k))
         else msg_malformed)), [])"
  proof (cases "k = []")
    case True
    with k call_ai_missing[of e backend loads raw_text] show ?thesis by simp
  next
    case False
    show ?thesis
    proof (cases "\<exists>c\<in>set k. 127 < c")
      case True
      with b have "bad_chars k \<noteq> []" by simp
      from call_ai_nonascii[OF k this, of backend loads raw_text] False True
      show ?thesis by simp
    next
      case nb: False
      with b have e: "bad_chars k = []" by simp
      from f False nb have "\<not> startswith k (lit ''sk-'')" by blast
      from call_ai_malformed[OF k False e this, of backend loads raw_text] False nb
      show ?thesis by simp
    qed
  qed
  with messages_distinct show ?thesis by blast
qed

theorem credential_checks_witness:
  "lit ''ab'' @ [65279] =
     strip (case secret_OPENAI_API_KEY
                   (example_env\<lparr>secret_OPENAI_API_KEY := Some (lit '' ab'' @ [65279, 32])\<rparr>) of
              None \<Rightarrow> [] | Some c \<Rightarrow> c) \<and>
   65279 \<in> set (lit ''ab'' @ [65279]) \<and> (127::nat) < 65279 \<and>
   \<not> startswith (lit ''ab'' @ [65279]) (lit ''sk-'') \<and>
   call_ai example_backend example_loads
     (example_env\<lparr>secret_OPENAI_API_KEY := Some (lit '' ab'' @ [65279, 32])\<rparr>) (lit ''notice'') =
   (Inl (RuntimeError (msg_nonascii [(2, 65279)])), [])"
proof -
  let ?e = "example_env\<lparr>secret_OPENAI_API_KEY := Some (lit '' ab'' @ [65279, 32])\<rparr>"
  let ?k = "lit ''ab'' @ [65279]"
  have k: "?k = strip (case secret_OPENAI_API_KEY ?e of None \<Rightarrow> [] | Some c \<Rightarrow> c)"
    by (simp add: string_eval)
  have m: "65279 \<in> set ?k" by simp
  have ex: "\<exists>c\<in>set ?k. 127 < c" by (rule bexI[OF _ m]) simp
  have s: "\<not> startswith ?k (lit ''sk-'')" by (simp add: string_eval)
  have bc: "take 10 (bad_chars ?k) = [(2, 65279)]"
    by (simp add: bad_chars_def lit_def enumerate_eq_zip upt_rec)
  from ex have f: "?k = [] \<or> (\<exists>c\<in>set ?k. 127 < c) \<or> \<not> startswith ?k (lit ''sk-'')" by blast
  have ne: "?k \<noteq> []" by simp
  from credential_checks[OF k f, of example_backend example_loads "lit ''notice''"] ex ne bc
  have "call_ai example_backend example_loads ?e (lit ''notice'') =
        (Inl (RuntimeError (msg_nonascii [(2, 65279)])), [])"
    by (simp only: if_True if_False simp_thms)
  with k m s show ?thesis by simp
qed

section \<open>The message about non-ASCII characters\<close>

lemma digit_in_lit: "48 \<le> c \<and> c \<le> 57 \<Longrightarrow> c \<in> set (lit ''(), 0123456789'')"
  by (simp add: lit_def) arith

lemma repr_pair_chars: "c \<in> set (repr_pair p) \<Longrightarrow> c \<in> set (lit ''(), 0123456789'')"
proof -
  assume "c \<in> set (repr_pair p)"
  then have "c \<in> set (lit ''(, )'') \<or> c \<in> set (str_nat (fst p)) \<or> c \<in> set (str_nat (snd p))"
    by (auto simp: repr_pair_def lit_def)
  then show ?thesis
  proof (elim disjE)
    assume "c \<in> set (lit ''(, )'')"
    then show ?thesis by (auto simp: lit_def)
  next
    assume "c \<in> set (str_nat (fst p))"
    then show ?thesis using str_nat_digits digit_in_lit by blast
  next
    assume "c \<in> set (str_nat (snd p))"
    then show ?thesis using str_nat_digits digit_in_lit by blast
  qed
qed

lemma join_chars:
  "c \<in> set (join sep xs) \<Longrightarrow> c \<in> set sep \<or> (\<exists>x\<in>set xs. c \<in> set x)"
  by (induction sep xs rule: join.induct) auto

lemma repr_pairs_chars: "c \<in> set (repr_pairs ps) \<Longrightarrow> c \<in> set (lit ''[](), 0123456789'')"
proof -
  assume "c \<in> set (repr_pairs ps)"
  then have "c = 91 \<or> c = 93 \<or> c \<in> set (join (lit '', '') (map repr_pair ps))"
    by (auto simp: repr_pairs_def lit_def)
  then have "c = 91 \<or> c = 93 \<or> c \<in> set (lit '', '') \<or> (\<exists>p\<in>set ps. c \<in> set (repr_pair p))"
    using join_chars[of c "lit '', ''" "map repr_pair ps"] by auto
  then show ?thesis
    using repr_pair_chars[of c] by (auto simp: lit_def)
qed

lemma bad_chars_entry:
  "(i, c) \<in> set (bad_chars k) \<Longrightarrow> i < length k \<and> k ! i = c \<and> 127 < c"
  by (auto simp: bad_chars_def in_set_enumerate_eq)

text \<open>
  C10. When the trimmed credential has characters above 127, the error message is the
  fixed text around \<open>repr\<close> of the list \<open>shown\<close>, where \<open>shown\<close> is the first ten (or
  fewer) entries of the list of offending positions and code points; what the message
  spells of the credential is made of ASCII digits and punctuation only, so no
  offending character stands in it, and no request goes out.
\<close>

theorem nonascii_message:
  "k = strip (case secret_OPENAI_API_KEY e of None \<Rightarrow> [] | Some c \<Rightarrow> c) \<Longrightarrow>
   bad_chars k \<noteq> [] \<Longrightarrow>
   \<exists>shown.
     call_ai backend loads e raw_text = (Inl (RuntimeError (msg_nonascii shown)), []) \<and>
     shown = take 10 (bad_chars k) \<and> length shown \<le> 10 \<and>
     length shown = min 10 (length (bad_chars k)) \<and>
     list_all (\<lambda>p. fst p < length k \<and> k ! fst p = snd p \<and> 127 < snd p) shown \<and>
     set (repr_pairs shown) \<subseteq> set (lit ''[](), 0123456789'') \<and>
     list_all (\<lambda>p. snd p \<notin> set (repr_pairs shown)) (bad_chars k)"
proof -
  assume k: "k = strip (case secret_OPENAI_API_KEY e of None \<Rightarrow> [] | Some c \<Rightarrow> c)"
    and b: "bad_chars k \<noteq> []"
  let ?shown = "take 10 (bad_chars k)"
  have c: "call_ai backend loads e raw_text = (Inl (RuntimeError (msg_nonascii ?shown)), [])"
    by (rule call_ai_nonascii[OF k b])
  have e: "list_all (\<lambda>p. fst p < length k \<and> k ! fst p = snd p \<and> 127 < snd p) ?shown"
    unfolding list_all_iff
  proof
    fix p assume "p \<in> set ?shown"
    then have "p \<in> set (bad_chars k)" by (rule in_set_takeD)
    then show "fst p < length k \<and> k ! fst p = snd p \<and> 127 < snd p"
      using bad_chars_entry[of "fst p" "snd p" k] by simp
  qed
  have r: "set (repr_pairs ?shown) \<subseteq> set (lit ''[](), 0123456789'')"
    using repr_pairs_chars[of _ ?shown] by blast
  have a: "\<forall>x\<in>set (lit ''[](), 0123456789''). x \<le> 127" by (simp add: lit_def)
  have n: "list_all (\<lambda>p. snd p \<notin> set (repr_pairs ?shown)) (bad_chars k)"
    unfolding list_all_iff
  proof
    fix p assume "p \<in> set (bad_chars k)"
    then have "127 < snd p" using bad_chars_entry[of "fst p" "snd p" k] by simp
    with r a show "snd p \<notin> set (repr_pairs ?shown)" by fastforce
  qed
  from c e r n show ?thesis by simp
qed

theorem nonascii_message_witness:
  "lit ''sk-'' @ [8203, 8203, 8203, 8203, 8203, 8203, 8203, 8203, 8203, 8203, 8203, 8203] =
     strip (case secret_OPENAI_API_KEY
                   (example_env\<lparr>secret_OPENAI_API_KEY :=
                      Some (lit ''sk-'' @
                        [8203, 8203, 8203, 8203, 8203, 8203, 8203, 8203, 8203, 8203, 8203, 8203])\<rparr>) of
              None \<Rightarrow> [] | Some c \<Rightarrow> c) \<and>
   length (bad_chars (lit ''sk-'' @
       [8203, 8203, 8203, 8203, 8203, 8203, 8203, 8203, 8203, 8203, 8203, 8203])) = 12 \<and>
   call_ai example_backend example_loads
     (example_env\<lparr>secret_OPENAI_API_KEY :=
        Some (lit ''sk-'' @
          [8203, 8203, 8203, 8203, 8203, 8203, 8203, 8203, 8203, 8203, 8203, 8203])\<rparr>)
     (lit ''notice'') =
   (Inl (RuntimeError (msg_nonascii
      [(3, 8203), (4, 8203), (5, 8203), (6, 8203), (7, 8203), (8, 8203), (9, 8203),
       (10, 8203), (11, 8203), (12, 8203)])), [])"
proof -
  let ?k = "lit ''sk-'' @
     [8203, 8203, 8203, 8203, 8203, 8203, 8203, 8203, 8203, 8203, 8203, 8203]"
  let ?e = "example_env\<lparr>secret_OPENAI_API_KEY := Some ?k\<rparr>"
  have k: "?k = strip (case secret_OPENAI_API_KEY ?e of None \<Rightarrow> [] | Some c \<Rightarrow> c)"
    by (simp add: string_eval)
  have bc: "bad_chars ?k =
      [(3, 8203), (4, 8203), (5, 8203), (6, 8203), (7, 8203), (8, 8203), (9, 8203),
       (10, 8203), (11, 8203), (12, 8203), (13, 8203), (14, 8203)]"
    by (simp add: bad_chars_def lit_def enumerate_eq_zip upt_rec)
  have b: "bad_chars ?k \<noteq> []" unfolding bc by simp
  have l: "length (bad_chars ?k) = 12" unfolding bc by simp
  have t: "take 10 (bad_chars ?k) =
      [(3, 8203), (4, 8203), (5, 8203), (6, 8203), (7, 8203), (8, 8203), (9, 8203),
       (10, 8203), (11, 8203), (12, 8203)]"
    unfolding bc by simp
  from nonascii_message[OF k b, of example_backend example_loads "lit ''notice''"]
  have "call_ai example_backend example_loads ?e (lit ''notice'') =
        (Inl (RuntimeError (msg_nonascii (take 10 (bad_chars ?k)))), [])"
    by blast
  then have "call_ai example_backend example_loads ?e (lit ''notice'') =
        (Inl (RuntimeError (msg_nonascii
          [(3, 8203), (4, 8203), (5, 8203), (6, 8203), (7, 8203), (8, 8203), (9, 8203),
           (10, 8203), (11, 8203), (12, 8203)])), [])"
    unfolding t .
  with k l show ?thesis by blast
qed

section \<open>What strptime accepts\<close>

lemma decimal_value_le: "decimal_value c = Some v \<Longrightarrow> v \<le> 9"
proof -
  assume "decimal_value c = Some v"
  then obtain z where "find (\<lambda>z. z \<le> c \<and> c < z + 10) decimal_zeros = Some z" and v: "v = c - z"
    by (auto simp: decimal_value_def split: option.splits)
  then have "z \<le> c \<and> c < z + 10" by (auto simp: find_Some_iff)
  with v show ?thesis by arith
qed

lemma decimal_value_ascii: "48 \<le> c \<Longrightarrow> c \<le> 57 \<Longrightarrow> decimal_value c = Some (c - 48)"
  by (simp add: decimal_value_def decimal_zeros_def)

lemma digit_of_Some: "decimal_value c = Some v \<Longrightarrow> is_digit c \<and> digit_of c = v"
  by (simp add: is_digit_def digit_of_def)

lemma rng_mem:
  "(v, r) \<in> set (rng a b s) \<Longrightarrow> b \<le> 9 \<Longrightarrow>
   \<exists>c. s = c # r \<and> is_digit c \<and> digit_of c = v \<and> a \<le> v \<and> v \<le> b"
proof -
  assume m: "(v, r) \<in> set (rng a b s)" and b: "b \<le> 9"
  then obtain c where s: "s = c # r" and c: "48 + a \<le> c" "c \<le> 48 + b" and v: "v = c - 48"
    by (auto simp: rng_def split: list.splits if_splits)
  from c b have "decimal_value c = Some (c - 48)" by (simp add: decimal_value_ascii)
  from digit_of_Some[OF this] s c v show ?thesis by auto
qed

lemma dig_mem:
  "(v, r) \<in> set (dig s) \<Longrightarrow> \<exists>c. s = c # r \<and> is_digit c \<and> digit_of c = v \<and> v \<le> 9"
proof -
  assume "(v, r) \<in> set (dig s)"
  then obtain c where s: "s = c # r" and d: "decimal_value c = Some v"
    by (auto simp: dig_def split: list.splits option.splits)
  from digit_of_Some[OF d] decimal_value_le[OF d] s show ?thesis by blast
qed

lemma chr_mem: "(u, r) \<in> set (chr k s) \<Longrightarrow> s = k # r"
  by (auto simp: chr_def split: list.splits if_splits)

lemma two_mem:
  "(v, r') \<in> set (two p q s) \<Longrightarrow>
   \<exists>a b r. (a, r) \<in> set (p s) \<and> (b, r') \<in> set (q r) \<and> v = 10 * a + b"
  by (auto simp: two_def)

lemma spaces_mem:
  "(u, r) \<in> set (spaces s) \<Longrightarrow> \<exists>w. s = w @ r \<and> w \<noteq> [] \<and> list_all isspace w"
proof -
  assume "(u, r) \<in> set (spaces s)"
  then obtain n where n: "1 \<le> n" "n \<le> length (takeWhile isspace s)" and r: "r = drop n s"
    by (auto simp: spaces_def)
  have "length (takeWhile isspace s) \<le> length s" by (rule length_takeWhile_le)
  with n have l: "n \<le> length s" by simp
  have t: "take n s = take n (takeWhile isspace s)"
  proof -
    have "take n s = take n (takeWhile isspace s @ dropWhile isspace s)" by simp
    also have "\<dots> = take n (takeWhile isspace s)" using n(2) by (simp del: takeWhile_dropWhile_id)
    finally show ?thesis .
  qed
  have "set (take n (takeWhile isspace s)) \<subseteq> set (takeWhile isspace s)" by (rule set_take_subset)
  then have "list_all isspace (take n s)"
    unfolding t list_all_iff using set_takeWhileD[of _ isspace s] by blast
  moreover have "take n s \<noteq> []" using n(1) l by auto
  moreover have "s = take n s @ r" unfolding r by simp
  ultimately show ?thesis by blast
qed

lemma digits_value_1: "digits_value [c] = digit_of c"
  by (simp add: digits_value_def)

lemma digits_value_2: "digits_value [c, d] = 10 * digit_of c + digit_of d"
  by (simp add: digits_value_def)

lemma digits_value_4:
  "digits_value [a, b, c, d] = 1000 * digit_of a + 100 * digit_of b + 10 * digit_of c + digit_of d"
  by (simp add: digits_value_def)

lemma two_rng_rng_mem:
  assumes "(v, r) \<in> set (two (rng a b) (rng c d) s)" "b \<le> 9" "d \<le> 9"
  shows "\<exists>x y. s = x # y # r \<and> is_digit x \<and> is_digit y \<and> digits_value [x, y] = v \<and>
           10 * a + c \<le> v \<and> v \<le> 10 * b + d"
proof -
  from two_mem[OF assms(1)] obtain p q r1 where
    p: "(p, r1) \<in> set (rng a b s)" and q: "(q, r) \<in> set (rng c d r1)" and v: "v = 10 * p + q"
    by blast
  from rng_mem[OF p assms(2)] obtain x where
    x: "s = x # r1" "is_digit x" "digit_of x = p" "a \<le> p" "p \<le> b" by blast
  from rng_mem[OF q assms(3)] obtain y where
    y: "r1 = y # r" "is_digit y" "digit_of y = q" "c \<le> q" "q \<le> d" by blast
  from x y v show ?thesis by (auto simp: digits_value_2)
qed

lemma two_rng_dig_mem:
  assumes "(v, r) \<in> set (two (rng a b) dig s)" "b \<le> 9"
  shows "\<exists>x y. s = x # y # r \<and> is_digit x \<and> is_digit y \<and> digits_value [x, y] = v \<and>
           10 * a \<le> v \<and> v \<le> 10 * b + 9"
proof -
  from two_mem[OF assms(1)] obtain p q r1 where
    p: "(p, r1) \<in> set (rng a b s)" and q: "(q, r) \<in> set (dig r1)" and v: "v = 10 * p + q"
    by blast
  from rng_mem[OF p assms(2)] obtain x where
    x: "s = x # r1" "is_digit x" "digit_of x = p" "a \<le> p" "p \<le> b" by blast
  from dig_mem[OF q] obtain y where
    y: "r1 = y # r" "is_digit y" "digit_of y = q" "q \<le> 9" by blast
  from x y v show ?thesis by (auto simp: digits_value_2)
qed

lemma rng_field:
  assumes "(v, r) \<in> set (rng a b s)" "b \<le> 9"
  shows "\<exists>x. s = x # r \<and> is_digit x \<and> digits_value [x] = v \<and> a \<le> v \<and> v \<le> b"
  using rng_mem[OF assms] by (auto simp: digits_value_1)

lemma dig_field:
  assumes "(v, r) \<in> set (dig s)"
  shows "\<exists>x. s = x # r \<and> is_digit x \<and> digits_value [x] = v \<and> v \<le> 9"
  using dig_mem[OF assms] by (auto simp: digits_value_1)

lemma dir_Y_mem:
  assumes "(v, r) \<in> set (dir_Y s)"
  shows "\<exists>ds. s = ds @ r \<and> length ds = 4 \<and> list_all is_digit ds \<and> digits_value ds = v"
proof -
  from assms obtain a r1 b r2 c r3 d where
    a: "(a, r1) \<in> set (dig s)" and b: "(b, r2) \<in> set (dig r1)" and
    c: "(c, r3) \<in> set (dig r2)" and d: "(d, r) \<in> set (dig r3)" and
    v: "v = 1000 * a + 100 * b + 10 * c + d"
    by (auto simp: dir_Y_def)
  from dig_mem[OF a] obtain x1 where x1: "s = x1 # r1" "is_digit x1" "digit_of x1 = a" by blast
  from dig_mem[OF b] obtain x2 where x2: "r1 = x2 # r2" "is_digit x2" "digit_of x2 = b" by blast
  from dig_mem[OF c] obtain x3 where x3: "r2 = x3 # r3" "is_digit x3" "digit_of x3 = c" by blast
  from dig_mem[OF d] obtain x4 where x4: "r3 = x4 # r" "is_digit x4" "digit_of x4 = d" by blast
  have "s = [x1, x2, x3, x4] @ r" using x1 x2 x3 x4 by simp
  moreover have "list_all is_digit [x1, x2, x3, x4]" using x1 x2 x3 x4 by simp
  moreover have "digits_value [x1, x2, x3, x4] = v" using x1 x2 x3 x4 v by (simp add: digits_value_4)
  ultimately show ?thesis by (intro exI[of _ "[x1, x2, x3, x4]"]) simp
qed

lemma dir_m_mem:
  assumes "(v, r) \<in> set (dir_m s)"
  shows "\<exists>ds. s = ds @ r \<and> digits_field 2 ds \<and> digits_value ds = v \<and> 1 \<le> v \<and> v \<le> 12"
proof -
  from assms consider
    (a) "(v, r) \<in> set (two (rng 1 1) (rng 0 2) s)" |
    (b) "(v, r) \<in> set (two (rng 0 0) (rng 1 9) s)" |
    (c) "(v, r) \<in> set (rng 1 9 s)"
    by (auto simp: dir_m_def)
  then show ?thesis
  proof cases
    case a
    from two_rng_rng_mem[OF a] obtain x y where
      "s = [x, y] @ r" "is_digit x" "is_digit y" "digits_value [x, y] = v" "10 \<le> v" "v \<le> 12"
      by auto
    then show ?thesis by (intro exI[of _ "[x, y]"]) (simp add: digits_field_def)
  next
    case b
    from two_rng_rng_mem[OF b] obtain x y where
      "s = [x, y] @ r" "is_digit x" "is_digit y" "digits_value [x, y] = v" "1 \<le> v" "v \<le> 9"
      by auto
    then show ?thesis by (intro exI[of _ "[x, y]"]) (simp add: digits_field_def)
  next
    case c
    from rng_field[OF c] obtain x where
      "s = [x] @ r" "is_digit x" "digits_value [x] = v" "1 \<le> v" "v \<le> 9"
      by auto
    then show ?thesis by (intro exI[of _ "[x]"]) (simp add: digits_field_def)
  qed
qed

lemma dir_H_mem:
  assumes "(v, r) \<in> set (dir_H s)"
  shows "\<exists>ds. s = ds @ r \<and> digits_field 2 ds \<and> digits_value ds = v \<and> v \<le> 23"
proof -
  from assms consider
    (a) "(v, r) \<in> set (two (rng 2 2) (rng 0 3) s)" |
    (b) "(v, r) \<in> set (two (rng 0 1) dig s)" |
    (c) "(v, r) \<in> set (dig s)"
    by (auto simp: dir_H_def)
  then show ?thesis
  proof cases
    case a
    from two_rng_rng_mem[OF a] obtain x y where
      "s = [x, y] @ r" "is_digit x" "is_digit y" "digits_value [x, y] = v" "v \<le> 23"
      by auto
    then show ?thesis by (intro exI[of _ "[x, y]"]) (simp add: digits_field_def)
  next
    case b
    from two_rng_dig_mem[OF b] obtain x y where
      "s = [x, y] @ r" "is_digit x" "is_digit y" "digits_value [x, y] = v" "v \<le> 19"
      by auto
    then show ?thesis by (intro exI[of _ "[x, y]"]) (simp add: digits_field_def)
  next
    case c
    from dig_field[OF c] obtain x where
      "s = [x] @ r" "is_digit x" "digits_value [x] = v" "v \<le> 9"
      by auto
    then show ?thesis by (intro exI[of _ "[x]"]) (simp add: digits_field_def)
  qed
qed

lemma dir_M_mem:
  assumes "(v, r) \<in> set (dir_M s)"
  shows "\<exists>ds. s = ds @ r \<and> digits_field 2 ds \<and> digits_value ds = v \<and> v \<le> 59"
proof -
  from assms consider
    (a) "(v, r) \<in> set (two (rng 0 5) dig s)" |
    (b) "(v, r) \<in> set (dig s)"
    by (auto simp: dir_M_def)
  then show ?thesis
  proof cases
    case a
    from two_rng_dig_mem[OF a] obtain x y where
      "s = [x, y] @ r" "is_digit x" "is_digit y" "digits_value [x, y] = v" "v \<le> 59"
      by auto
    then show ?thesis by (intro exI[of _ "[x, y]"]) (simp add: digits_field_def)
  next
    case b
    from dig_field[OF b] obtain x where
      "s = [x] @ r" "is_digit x" "digits_value [x] = v" "v \<le> 9"
      by auto
    then show ?thesis by (intro exI[of _ "[x]"]) (simp add: digits_field_def)
  qed
qed

lemma dir_d_mem:
  assumes "(v, r) \<in> set (dir_d s)"
  shows "\<exists>p ds. s = p @ ds @ r \<and>
           ((p = [] \<and> digits_field 2 ds) \<or> (p = lit '' '' \<and> digits_field 1 ds)) \<and>
           digits_value ds = v \<and> 1 \<le> v \<and> v \<le> 31"
proof -
  from assms consider
    (a) "(v, r) \<in> set (two (rng 3 3) (rng 0 1) s)" |
    (b) "(v, r) \<in> set (two (rng 1 2) dig s)" |
    (c) "(v, r) \<in> set (two (rng 0 0) (rng 1 9) s)" |
    (d) "(v, r) \<in> set (rng 1 9 s)" |
    (e) "\<exists>u r1. (u, r1) \<in> set (chr 32 s) \<and> (v, r) \<in> set (rng 1 9 r1)"
    by (auto simp: dir_d_def)
  then show ?thesis
  proof cases
    case a
    from two_rng_rng_mem[OF a] obtain x y where
      "s = [] @ [x, y] @ r" "is_digit x" "is_digit y" "digits_value [x, y] = v" "30 \<le> v" "v \<le> 31"
      by auto
    then show ?thesis
      by (intro exI[of _ "[]"] exI[of _ "[x, y]"]) (simp add: digits_field_def)
  next
    case b
    from two_rng_dig_mem[OF b] obtain x y where
      "s = [] @ [x, y] @ r" "is_digit x" "is_digit y" "digits_value [x, y] = v" "10 \<le> v" "v \<le> 29"
      by auto
    then show ?thesis
      by (intro exI[of _ "[]"] exI[of _ "[x, y]"]) (simp add: digits_field_def)
  next
    case c
    from two_rng_rng_mem[OF c] obtain x y where
      "s = [] @ [x, y] @ r" "is_digit x" "is_digit y" "digits_value [x, y] = v" "1 \<le> v" "v \<le> 9"
      by auto
    then show ?thesis
      by (intro exI[of _ "[]"] exI[of _ "[x, y]"]) (simp add: digits_field_def)
  next
    case d
    from rng_field[OF d] obtain x where
      "s = [] @ [x] @ r" "is_digit x" "digits_value [x] = v" "1 \<le> v" "v \<le> 9"
      by auto
    then show ?thesis
      by (intro exI[of _ "[]"] exI[of _ "[x]"]) (simp add: digits_field_def)
  next
    case e
    then obtain u r1 where u: "(u, r1) \<in> set (chr 32 s)" and w: "(v, r) \<in> set (rng 1 9 r1)"
      by blast
    from chr_mem[OF u] have s: "s = 32 # r1" .
    from rng_field[OF w] obtain x where
      "r1 = [x] @ r" "is_digit x" "digits_value [x] = v" "1 \<le> v" "v \<le> 9"
      by auto
    with s show ?thesis
      by (intro exI[of _ "lit '' ''"] exI[of _ "[x]"]) (simp add: digits_field_def lit_def)
  qed
qed

lemma format_regex_mem:
  assumes "((Y, m, d, H, M), r9) \<in> set (format_regex s)"
  shows "\<exists>r1 r2 r3 r4 r5 r6 r7 r8.
           (Y, r1) \<in> set (dir_Y s) \<and> ((), r2) \<in> set (chr 45 r1) \<and>
           (m, r3) \<in> set (dir_m r2) \<and> ((), r4) \<in> set (chr 45 r3) \<and>
           (d, r5) \<in> set (dir_d r4) \<and> ((), r6) \<in> set (spaces r5) \<and>
           (H, r7) \<in> set (dir_H r6) \<and> ((), r8) \<in> set (chr 58 r7) \<and>
           (M, r9) \<in> set (dir_M r8)"
  using assms unfolding format_regex_def by auto blast

lemma format_regex_shape:
  assumes "((Y, m, d, H, M), r) \<in> set (format_regex s)"
  shows "\<exists>ys ms p ds w hs mis.
           s = ys @ lit ''-'' @ ms @ lit ''-'' @ p @ ds @ w @ hs @ lit '':'' @ mis @ r \<and>
           length ys = 4 \<and> list_all is_digit ys \<and> digits_value ys = Y \<and>
           digits_field 2 ms \<and> digits_value ms = m \<and> 1 \<le> m \<and> m \<le> 12 \<and>
           ((p = [] \<and> digits_field 2 ds) \<or> (p = lit '' '' \<and> digits_field 1 ds)) \<and>
           digits_value ds = d \<and> 1 \<le> d \<and> d \<le> 31 \<and>
           w \<noteq> [] \<and> list_all isspace w \<and>
           digits_field 2 hs \<and> digits_value hs = H \<and> H \<le> 23 \<and>
           digits_field 2 mis \<and> digits_value mis = M \<and> M \<le> 59"
proof -
  from format_regex_mem[OF assms] obtain r1 r2 r3 r4 r5 r6 r7 r8 where
    y: "(Y, r1) \<in> set (dir_Y s)" and c1: "((), r2) \<in> set (chr 45 r1)" and
    m: "(m, r3) \<in> set (dir_m r2)" and c2: "((), r4) \<in> set (chr 45 r3)" and
    d: "(d, r5) \<in> set (dir_d r4)" and w: "((), r6) \<in> set (spaces r5)" and
    h: "(H, r7) \<in> set (dir_H r6)" and c3: "((), r8) \<in> set (chr 58 r7)" and
    mi: "(M, r) \<in> set (dir_M r8)"
    by blast
  from dir_Y_mem[OF y] obtain ys where
    ys: "s = ys @ r1" "length ys = 4" "list_all is_digit ys" "digits_value ys = Y" by blast
  from chr_mem[OF c1] have r1: "r1 = lit ''-'' @ r2" by (simp add: lit_def)
  from dir_m_mem[OF m] obtain ms where
    ms: "r2 = ms @ r3" "digits_field 2 ms" "digits_value ms = m" "1 \<le> m" "m \<le> 12" by blast
  from chr_mem[OF c2] have r3: "r3 = lit ''-'' @ r4" by (simp add: lit_def)
  from dir_d_mem[OF d] obtain p ds where
    ds: "r4 = p @ ds @ r5"
      "(p = [] \<and> digits_field 2 ds) \<or> (p = lit '' '' \<and> digits_field 1 ds)"
      "digits_value ds = d" "1 \<le> d" "d \<le> 31" by blast
  from spaces_mem[OF w] obtain ws where
    ws: "r5 = ws @ r6" "ws \<noteq> []" "list_all isspace ws" by blast
  from dir_H_mem[OF h] obtain hs where
    hs: "r6 = hs @ r7" "digits_field 2 hs" "digits_value hs = H" "H \<le> 23" by blast
  from chr_mem[OF c3] have r7: "r7 = lit '':'' @ r8" by (simp add: lit_def)
  from dir_M_mem[OF mi] obtain mis where
    mis: "r8 = mis @ r" "digits_field 2 mis" "digits_value mis = M" "M \<le> 59" by blast
  have "s = ys @ lit ''-'' @ ms @ lit ''-'' @ p @ ds @ ws @ hs @ lit '':'' @ mis @ r"
    unfolding ys(1) r1 ms(1) r3 ds(1) ws(1) hs(1) r7 mis(1) by simp
  with ys(2-) ms(2-) ds(2-) ws(2-) hs(2-) mis(2-) show ?thesis by blast
qed

lemma strptime_accepted:
  assumes "strptime s = Inr dt"
  shows "accepted_shape s"
proof -
  from assms obtain Y m d H M rest where
    f: "format_regex s = ((Y, m, d, H, M), []) # rest" and
    v: "1 \<le> Y" "d \<le> days_in_month Y m"
    by (auto simp: strptime_def not_less split: list.splits prod.splits if_splits)
  then have "((Y, m, d, H, M), []) \<in> set (format_regex s)" by simp
  from format_regex_shape[OF this] obtain ys ms p ds w hs mis where
    s: "s = ys @ lit ''-'' @ ms @ lit ''-'' @ p @ ds @ w @ hs @ lit '':'' @ mis @ []" and
    r: "length ys = 4" "list_all is_digit ys" "digits_value ys = Y"
       "digits_field 2 ms" "digits_value ms = m" "1 \<le> m" "m \<le> 12"
       "(p = [] \<and> digits_field 2 ds) \<or> (p = lit '' '' \<and> digits_field 1 ds)"
       "digits_value ds = d" "1 \<le> d" "d \<le> 31"
       "w \<noteq> []" "list_all isspace w"
       "digits_field 2 hs" "digits_value hs = H" "H \<le> 23"
       "digits_field 2 mis" "digits_value mis = M" "M \<le> 59"
    by blast
  from s have s': "s = ys @ lit ''-'' @ ms @ lit ''-'' @ p @ ds @ w @ hs @ lit '':'' @ mis"
    by simp
  show ?thesis
    unfolding accepted_shape_def
    apply (rule exI[of _ ys], rule exI[of _ ms], rule exI[of _ p], rule exI[of _ ds],
           rule exI[of _ w], rule exI[of _ hs], rule exI[of _ mis])
    using s' r v by simp
qed

lemma accepted_shape_dash: "accepted_shape s \<Longrightarrow> s ! 4 = 45"
  by (auto simp: accepted_shape_def nth_append lit_def)

lemma exact_pattern_length: "exact_pattern s \<Longrightarrow> length s = 16"
  by (auto simp: exact_pattern_def lit_def)

text \<open>The exact pattern is not empty, and the parse step accepts its example.\<close>

lemma exact_pattern_example:
  "exact_pattern (lit ''2025-03-10 09:00'') \<and>
   strptime (lit ''2025-03-10 09:00'') =
     Inr \<lparr>year = 2025, month = 3, day = 10, hour = 9, minute = 0, second = 0\<rparr>"
proof
  have "lit ''2025-03-10 09:00'' =
      lit ''2025'' @ lit ''-'' @ lit ''03'' @ lit ''-'' @ lit ''10'' @ lit '' '' @ lit ''09'' @
      lit '':'' @ lit ''00''"
    by (simp add: lit_def)
  moreover have "list_all ascii_digit (lit ''2025'' @ lit ''03'' @ lit ''10'' @ lit ''09'' @ lit ''00'')"
    by (simp add: lit_def ascii_digit_def)
  moreover have "digits_value (lit ''2025'') = 2025" "digits_value (lit ''03'') = 3"
    "digits_value (lit ''10'') = 10" "digits_value (lit ''09'') = 9" "digits_value (lit ''00'') = 0"
    by (simp_all add: lit_def digits_value_def digit_of_def decimal_value_def decimal_zeros_def)
  moreover have "length (lit ''2025'') = 4" "length (lit ''03'') = 2" "length (lit ''10'') = 2"
    "length (lit ''09'') = 2" "length (lit ''00'') = 2"
    by (simp_all add: lit_def)
  moreover have "days_in_month 2025 3 = 31" by (simp add: days_in_month_def)
  ultimately show "exact_pattern (lit ''2025-03-10 09:00'')"
    unfolding exact_pattern_def
    by (intro exI[of _ "lit ''2025''"] exI[of _ "lit ''03''"] exI[of _ "lit ''10''"]
              exI[of _ "lit ''09''"] exI[of _ "lit ''00''"]) simp
  show "strptime (lit ''2025-03-10 09:00'') =
     Inr \<lparr>year = 2025, month = 3, day = 10, hour = 9, minute = 0, second = 0\<rparr>"
    by (simp add: string_eval strptime_eval)
qed

section \<open>Strings that the parse step rejects\<close>

text \<open>
  C1, as the claim states it, fails: the string \<open>2025-3-10 9:00\<close> deviates from the exact
  pattern (the month and the hour have one digit), and \<open>to_ics\<close> emits an event for it.
\<close>

theorem skip_malformed_due_counterexample:
  "\<not> exact_pattern (replace (lit ''T'') (lit '' '') (strip (lit ''2025-3-10 9:00''))) \<and>
   to_ics example_env [example_task (lit ''Submit'') (PStr (lit ''2025-3-10 9:00''))]
     (lit ''Asia/Seoul'') =
   Inr (join [10]
     [lit ''BEGIN:VCALENDAR'', lit ''VERSION:2.0'', lit ''PRODID:-//Notice2Do//KR//EN'',
      lit ''CALSCALE:GREGORIAN'',
      lit ''BEGIN:VEVENT'',
      lit ''UID:notice2do-0-20250310T090000@local'',
      lit ''DTSTAMP:20250301T123045Z'',
      lit ''DTSTART;TZID=Asia/Seoul:20250310T090000'',
      lit ''DTEND;TZID=Asia/Seoul:20250310T090000'',
      lit ''SUMMARY:Submit'',
      lit ''END:VEVENT'',
      lit ''END:VCALENDAR''])"
proof -
  let ?t = "example_task (lit ''Submit'') (PStr (lit ''2025-3-10 9:00''))"
  have n: "replace (lit ''T'') (lit '' '') (strip (lit ''2025-3-10 9:00'')) = lit ''2025-3-10 9:00''"
    by (simp add: string_eval)
  have "length (lit ''2025-3-10 9:00'') \<noteq> 16" by (simp add: lit_def)
  then have x: "\<not> exact_pattern (lit ''2025-3-10 9:00'')"
    using exact_pattern_length by blast
  have du: "due_local ?t = PStr (lit ''2025-3-10 9:00'')" by (simp add: example_task_def)
  have sp: "strptime (lit ''2025-3-10 9:00'') =
      Inr \<lparr>year = 2025, month = 3, day = 10, hour = 9, minute = 0, second = 0\<rparr>"
    by (simp add: string_eval strptime_eval)
  have p: "parse_due ?t =
      Inr (Some \<lparr>year = 2025, month = 3, day = 10, hour = 9, minute = 0, second = 0\<rparr>)"
    unfolding parse_due_PStr[OF du] n sp by (simp add: string_eval)
  have s: "summary_of ?t = Inr (lit ''Submit'')"
    by (simp add: summary_of_def example_task_def replace_single) (simp add: string_eval)
  have ty: "list_all typed_task [?t]" by (simp add: typed_task_def example_task_def)
  have nw: "strftime (now example_env) @ lit ''Z'' = lit ''20250301T123045Z''"
    by (simp add: example_env_def strftime_eval lit_def)
  have "to_ics example_env [?t] (lit ''Asia/Seoul'') =
   Inr (join [10]
     [lit ''BEGIN:VCALENDAR'', lit ''VERSION:2.0'', lit ''PRODID:-//Notice2Do//KR//EN'',
      lit ''CALSCALE:GREGORIAN'',
      lit ''BEGIN:VEVENT'',
      lit ''UID:notice2do-0-20250310T090000@local'',
      lit ''DTSTAMP:20250301T123045Z'',
      lit ''DTSTART;TZID=Asia/Seoul:20250310T090000'',
      lit ''DTEND;TZID=Asia/Seoul:20250310T090000'',
      lit ''SUMMARY:Submit'',
      lit ''END:VEVENT'',
      lit ''END:VCALENDAR''])"
    unfolding to_ics_typed[OF ty] nw events_of_Cons events_of_Nil vevent_parsed[OF p s]
      strftime_example
    by (simp add: lit_def str_nat.simps)
  with x n show ?thesis by simp
qed

text \<open>
  C1, amended. A task whose \<open>due_local\<close> string, after trimming and with every \<open>T\<close>
  rewritten to a space, is not of the accepted shape (four digits of a year from 1 on,
  \<open>-\<close>, a month from 1 to 12 in one or two digits, \<open>-\<close>, a day of that month in one or two
  digits or as a space and one digit, white space, an hour up to 23 in one or two
  digits, \<open>:\<close>, a minute up to 59 in one or two digits) is skipped: the parse step ends
  in \<open>continue\<close> after the one call of \<open>strptime\<close>, the loop body adds no line and raises
  nothing, and the loop goes on with the next index.
\<close>

theorem skip_malformed_due:
  "due_local t = PStr s \<Longrightarrow>
   \<not> accepted_shape (replace (lit ''T'') (lit '' '') (strip s)) \<Longrightarrow>
   parse_due t = Inr None \<and> vevent now_utc tzid i t = Inr [] \<and>
   to_ics_loop now_utc tzid i (t # ts) lines = to_ics_loop now_utc tzid (Suc i) ts lines"
proof -
  assume d: "due_local t = PStr s"
    and n: "\<not> accepted_shape (replace (lit ''T'') (lit '' '') (strip s))"
  have "\<And>dt. strptime (replace (lit ''T'') (lit '' '') (strip s)) \<noteq> Inr dt"
    using n strptime_accepted by blast
  then have p: "parse_due t = Inr None"
    unfolding parse_due_PStr[OF d] by (auto split: sum.splits)
  from vevent_skip[OF p] p show ?thesis by simp
qed

theorem skip_malformed_due_witness:
  "due_local (example_task (lit ''Submit'') (PStr (lit ''2025/03/10 09:00''))) =
     PStr (lit ''2025/03/10 09:00'') \<and>
   \<not> accepted_shape (replace (lit ''T'') (lit '' '') (strip (lit ''2025/03/10 09:00''))) \<and>
   parse_due (example_task (lit ''Submit'') (PStr (lit ''2025/03/10 09:00''))) = Inr None \<and>
   vevent (lit ''20250301T123045Z'') (lit ''Asia/Seoul'') 0
     (example_task (lit ''Submit'') (PStr (lit ''2025/03/10 09:00''))) = Inr [] \<and>
   to_ics_loop (lit ''20250301T123045Z'') (lit ''Asia/Seoul'') 0
     [example_task (lit ''Submit'') (PStr (lit ''2025/03/10 09:00''))] [lit ''BEGIN:VCALENDAR''] =
   Inr [lit ''BEGIN:VCALENDAR'']"
proof -
  let ?t = "example_task (lit ''Submit'') (PStr (lit ''2025/03/10 09:00''))"
  have d: "due_local ?t = PStr (lit ''2025/03/10 09:00'')" by (simp add: example_task_def)
  have n: "replace (lit ''T'') (lit '' '') (strip (lit ''2025/03/10 09:00'')) =
             lit ''2025/03/10 09:00''"
    by (simp add: string_eval)
  have "lit ''2025/03/10 09:00'' ! 4 \<noteq> 45" by (simp add: lit_def)
  then have a: "\<not> accepted_shape (replace (lit ''T'') (lit '' '') (strip (lit ''2025/03/10 09:00'')))"
    unfolding n using accepted_shape_dash by blast
  from skip_malformed_due[OF d a, of "lit ''20250301T123045Z''" "lit ''Asia/Seoul''" 0 "[]"
      "[lit ''BEGIN:VCALENDAR'']"] d a
  show ?thesis by simp
qed

end
